theory Spec2Isabelle
  imports Complex_Main "HOL-Library.Word"
begin

unbundle bit_operations_syntax

section \<open>JavaScript numbers\<close>

text \<open>
  The network code (\<^verbatim>\<open>src/components/NeuralNet.tsx\<close>) and the decision code
  (\<^verbatim>\<open>src/components/Landing.tsx\<close>) compute on JavaScript numbers, that is on
  IEEE-754 doubles, and call \<^verbatim>\<open>Math.sqrt\<close>, \<^verbatim>\<open>Math.tanh\<close> and
  \<^verbatim>\<open>Math.exp\<close>, whose results ECMAScript leaves to the implementation.
  The arithmetic of the weights and activations is therefore a parameter of the
  model: a record \<open>M\<close> of the operations on a carrier type \<open>'a\<close>. Every theorem
  below that quantifies over \<open>M\<close> holds for each interpretation of the operations,
  the doubles of a JavaScript engine included.

  What IEEE-754 fixes exactly is kept concrete. A number has a value
  (\<open>num_val\<close>): not-a-number, an infinity, or a real (both zeros have the value
  \<open>Finite 0\<close>); the comparison \<^verbatim>\<open>x > y\<close> is decided by the values alone and is
  false as soon as one side is not-a-number.
\<close>

datatype fpvalue = NaN | NegInf | Finite real | PosInf

record 'a jsmath =
  num_add :: "'a \<Rightarrow> 'a \<Rightarrow> 'a"
  num_sub :: "'a \<Rightarrow> 'a \<Rightarrow> 'a"
  num_mul :: "'a \<Rightarrow> 'a \<Rightarrow> 'a"
  num_div :: "'a \<Rightarrow> 'a \<Rightarrow> 'a"
  num_neg :: "'a \<Rightarrow> 'a"
  Math_sqrt :: "'a \<Rightarrow> 'a"
  Math_tanh :: "'a \<Rightarrow> 'a"
  Math_exp :: "'a \<Rightarrow> 'a"
  num_of_int :: "int \<Rightarrow> 'a"
  num_0_1 :: "'a"
  num_undefined :: "'a"
  num_val :: "'a \<Rightarrow> fpvalue"

text \<open>
  \<open>num_0_1\<close> is the literal \<^verbatim>\<open>0.1\<close>; \<open>num_undefined\<close> is what \<^verbatim>\<open>undefined\<close>
  converts to when it is an operand of \<^verbatim>\<open>+\<close> or \<^verbatim>\<open>*\<close> (ToNumber gives NaN);
  \<open>num_of_int\<close> is the number an integer-valued number is.
\<close>

fun fp_gt :: "fpvalue \<Rightarrow> fpvalue \<Rightarrow> bool" where
  "fp_gt NaN y = False"
| "fp_gt x NaN = False"
| "fp_gt NegInf y = False"
| "fp_gt (Finite a) NegInf = True"
| "fp_gt (Finite a) (Finite b) = (b < a)"
| "fp_gt (Finite a) PosInf = False"
| "fp_gt PosInf PosInf = False"
| "fp_gt PosInf y = True"

definition num_gt :: "'a jsmath \<Rightarrow> 'a \<Rightarrow> 'a \<Rightarrow> bool" where
  "num_gt M x y = fp_gt (num_val M x) (num_val M y)"

text \<open>
  Reading an array at an index: the element, or \<^verbatim>\<open>undefined\<close> out of range, which
  the arithmetic that consumes it converts to a number.
\<close>

definition js_index :: "'a jsmath \<Rightarrow> 'a list \<Rightarrow> nat \<Rightarrow> 'a" where
  "js_index M xs i = (if i < length xs then xs ! i else num_undefined M)"

text \<open>
  \<^verbatim>\<open>xs.reduce((s, v, i) => f(s, v, i), init)\<close>: a left fold over the elements
  with their indices.
\<close>

definition reduce :: "('b \<Rightarrow> 'c \<Rightarrow> nat \<Rightarrow> 'b) \<Rightarrow> 'b \<Rightarrow> 'c list \<Rightarrow> 'b" where
  "reduce f init xs = foldl (\<lambda>s (i, v). f s v i) init (List.enumerate 0 xs)"

section \<open>Integers in double arithmetic\<close>

text \<open>
  The layer sizes and the generator's seed are numbers too, and the source adds
  and multiplies them with \<^verbatim>\<open>+\<close> and \<^verbatim>\<open>*\<close>. On integer operands IEEE-754 fixes
  the result: the exact sum or product, rounded to the nearest double (53
  significant bits, ties to the even significand), and an infinity from
  \<open>2 ^ 1024\<close>. A layer size is an \<open>int\<close>; it stands for a number of the caller when
  it is a double (\<open>round_double v = Whole v\<close>, as every integer of magnitude up to
  \<open>2 ^ 53\<close> is). A seed is an \<open>intnum\<close>: an integer-valued double, an infinity or
  not-a-number. Zero has one representative: the sign of a zero does not reach
  any result here.
\<close>

datatype intnum = Whole int | PlusInf | MinusInf | NotNum

function bit_length :: "int \<Rightarrow> nat" where
  "bit_length n = (if n \<le> 0 then 0 else Suc (bit_length (n div 2)))"
  by pat_completeness auto
termination
  by (relation "measure nat") auto

declare bit_length.simps [simp del]

definition round_double :: "int \<Rightarrow> intnum" where
  "round_double n =
     (let a = \<bar>n\<bar> in
      if a < 2 ^ 53 then Whole n
      else
        let e = bit_length a - 53;
            q = a div 2 ^ e;
            r = a mod 2 ^ e;
            half = 2 ^ (e - 1);
            q' = (if half < r \<or> (r = half \<and> odd q) then q + 1 else q);
            m = q' * 2 ^ e
        in if 2 ^ 1024 \<le> m then (if n < 0 then MinusInf else PlusInf)
           else Whole (if n < 0 then - m else m))"

text \<open>\<^verbatim>\<open>x + y\<close> on seeds, and \<^verbatim>\<open>x * y\<close> on two integers.\<close>

fun dbl_add :: "intnum \<Rightarrow> intnum \<Rightarrow> intnum" where
  "dbl_add (Whole a) (Whole c) = round_double (a + c)"
| "dbl_add NotNum y = NotNum"
| "dbl_add x NotNum = NotNum"
| "dbl_add PlusInf MinusInf = NotNum"
| "dbl_add MinusInf PlusInf = NotNum"
| "dbl_add PlusInf y = PlusInf"
| "dbl_add MinusInf y = MinusInf"
| "dbl_add (Whole a) y = y"

definition dbl_mul :: "int \<Rightarrow> int \<Rightarrow> intnum" where
  "dbl_mul a c = round_double (a * c)"

text \<open>
  ToInt32, which the bitwise operators and \<^verbatim>\<open>Math.imul\<close> apply to an operand: the
  integer modulo \<open>2 ^ 32\<close>, and 0 for an infinity and for not-a-number.
\<close>

fun ToInt32 :: "intnum \<Rightarrow> 32 word" where
  "ToInt32 (Whole n) = word_of_int n"
| "ToInt32 x = 0"

section \<open>Errors and \<^verbatim>\<open>Array.from\<close>\<close>

text \<open>
  The source has no \<^verbatim>\<open>throw\<close>. The one exception its operations can raise is
  the \<^verbatim>\<open>RangeError\<close> of \<^verbatim>\<open>Array.from({ length: n }, ...)\<close>, which builds its result
  with \<^verbatim>\<open>Array(len)\<close>: that raises when the length is \<open>2 ^ 32\<close> or more. The
  specification names two errors of its own. (What an engine does when it runs
  out of memory for a long array is outside the model.)
\<close>

datatype error = InvalidTopology | ShapeMismatch | RangeError

text \<open>An exception of \<open>r\<close> is the exception of the whole; otherwise \<open>f\<close> goes on
  with the value.\<close>

definition bind_result :: "error + 'x \<Rightarrow> ('x \<Rightarrow> error + 'y) \<Rightarrow> error + 'y" where
  "bind_result r f = (case r of Inl e \<Rightarrow> Inl e | Inr v \<Rightarrow> f v)"

text \<open>
  \<^verbatim>\<open>Array.from({ length: n }, () => g())\<close> with a callback that reads and advances
  a state (the generator's). The length goes through ToLength (a negative
  length is 0, the largest is \<open>2 ^ 53 - 1\<close>); the array is created, or the
  \<^verbatim>\<open>RangeError\<close> raised, before the first call; then the callback runs once per
  index, in index order, and its exception ends the loop.
\<close>

definition ToLength :: "int \<Rightarrow> int" where
  "ToLength n = min (max n 0) (2 ^ 53 - 1)"

fun array_from_loop :: "nat \<Rightarrow> ('s \<Rightarrow> error + 'b \<times> 's) \<Rightarrow> 's \<Rightarrow> error + 'b list \<times> 's" where
  "array_from_loop 0 g s = Inr ([], s)"
| "array_from_loop (Suc n) g s =
     bind_result (g s) (\<lambda>(x, s1).
       bind_result (array_from_loop n g s1) (\<lambda>(xs, s2). Inr (x # xs, s2)))"

definition array_from :: "int \<Rightarrow> ('s \<Rightarrow> error + 'b \<times> 's) \<Rightarrow> 's \<Rightarrow> error + 'b list \<times> 's" where
  "array_from n g s =
     (let len = ToLength n
      in if 2 ^ 32 \<le> len then Inl RangeError else array_from_loop (nat len) g s)"

section \<open>The generator \<^verbatim>\<open>mulberry32\<close>\<close>

text \<open>
  \<^verbatim>\<open>
  function mulberry32(seed: number) {
    return function () {
      let t = (seed += 0x6d2b79f5);
      t = Math.imul(t ^ (t >>> 15), t | 1);
      t ^= t + Math.imul(t ^ (t >>> 7), t | 61);
      return ((t ^ (t >>> 14)) >>> 0) / 4294967296;
    };
  }
  \<close>
  The closure's state is the captured variable \<^verbatim>\<open>seed\<close>, a number that each call
  increases with a double addition (\<open>mulberry32_next\<close>). The bitwise operators
  and \<^verbatim>\<open>Math.imul\<close> read their operands through ToInt32; \<^verbatim>\<open>>>>\<close> is the logical
  shift \<open>drop_bit\<close>. The sum \<^verbatim>\<open>t + Math.imul(...)\<close> of two 32-bit integers is
  below \<open>2 ^ 33\<close> in magnitude, hence exact, and is read modulo \<open>2 ^ 32\<close> by the
  \<^verbatim>\<open>^\<close> that follows, so it is the sum of words.
\<close>

definition mulberry32_increment :: int where
  "mulberry32_increment = 0x6d2b79f5"

definition mulberry32_next :: "intnum \<Rightarrow> intnum" where
  "mulberry32_next seed = dbl_add seed (Whole mulberry32_increment)"

definition mulberry32_bits :: "intnum \<Rightarrow> 32 word" where
  "mulberry32_bits seed' =
     (let t0 = ToInt32 seed';
          t1 = (t0 XOR drop_bit 15 t0) * (t0 OR 1);
          t2 = t1 XOR (t1 + (t1 XOR drop_bit 7 t1) * (t1 OR 61))
      in t2 XOR drop_bit 14 t2)"

definition mulberry32 :: "'a jsmath \<Rightarrow> intnum \<Rightarrow> 'a \<times> intnum" where
  "mulberry32 M seed =
     (let seed' = mulberry32_next seed
      in (num_div M (num_of_int M (uint (mulberry32_bits seed'))) (num_of_int M 4294967296),
          seed'))"

section \<open>Weight generation\<close>

text \<open>
  \<^verbatim>\<open>
  const fullCounts = useMemo(() => [inputVector.length, ...layers], ...);
  const weights = useMemo(() => {
    const seed = layers.reduce((s, v, i) => s + (i + 1) * v, inputVector.length * 131);
    const rng = mulberry32(seed);
    const arr = [];
    for (let l = 0; l < fullCounts.length - 1; l++) {
      const inN = fullCounts[l];
      const outN = fullCounts[l + 1];
      const scale = Math.sqrt(1 / inN);
      const W = Array.from({ length: outN }, () =>
        Array.from({ length: inN }, () => (rng() * 2 - 1) * scale));
      const b = Array.from({ length: outN }, () => (rng() * 2 - 1) * 0.1);
      arr.push({ W, b });
    }
    return arr;
  }, ...);
  \<close>
  An index \<open>i\<close> of an array is below \<open>2 ^ 32\<close>, so \<^verbatim>\<open>i + 1\<close> is exact.
\<close>

record 'a layer_params =
  W :: "'a list list"
  b :: "'a list"

definition fullCounts :: "int list \<Rightarrow> 'a list \<Rightarrow> int list" where
  "fullCounts layers inputVector = int (length inputVector) # layers"

definition seed_of :: "int list \<Rightarrow> 'a list \<Rightarrow> intnum" where
  "seed_of layers inputVector =
     reduce (\<lambda>s v i. dbl_add s (dbl_mul (int i + 1) v))
       (dbl_mul (int (length inputVector)) 131) layers"

text \<open>
  One weight entry \<^verbatim>\<open>(rng() * 2 - 1) * scale\<close> and one bias entry, as callbacks of
  \<^verbatim>\<open>Array.from\<close>. The generator \<open>rng\<close> is a function on the state \<open>'s\<close> its calls
  read and change.
\<close>

definition weight_entry :: "'a jsmath \<Rightarrow> ('s \<Rightarrow> 'a \<times> 's) \<Rightarrow> 'a \<Rightarrow> 's \<Rightarrow> error + 'a \<times> 's" where
  "weight_entry M rng scale st =
     (let (r, st') = rng st
      in Inr (num_mul M (num_sub M (num_mul M r (num_of_int M 2)) (num_of_int M 1)) scale, st'))"

definition bias_entry :: "'a jsmath \<Rightarrow> ('s \<Rightarrow> 'a \<times> 's) \<Rightarrow> 's \<Rightarrow> error + 'a \<times> 's" where
  "bias_entry M rng st =
     (let (r, st') = rng st
      in Inr (num_mul M (num_sub M (num_mul M r (num_of_int M 2)) (num_of_int M 1)) (num_0_1 M),
              st'))"

text \<open>The body of the \<^verbatim>\<open>for\<close> loop at index \<open>l\<close>, on the list built so far and the
  state, and the loop.\<close>

definition weights_step ::
  "'a jsmath \<Rightarrow> ('s \<Rightarrow> 'a \<times> 's) \<Rightarrow> int list \<Rightarrow> error + 'a layer_params list \<times> 's \<Rightarrow> nat \<Rightarrow>
     error + 'a layer_params list \<times> 's" where
  "weights_step M rng fc acc l =
     bind_result acc (\<lambda>(arr, st).
       let inN = fc ! l;
           outN = fc ! (l + 1);
           scale = Math_sqrt M (num_div M (num_of_int M 1) (num_of_int M inN))
       in bind_result (array_from outN (array_from inN (weight_entry M rng scale)) st) (\<lambda>(Wm, st1).
            bind_result (array_from outN (bias_entry M rng) st1) (\<lambda>(bv, st2).
              Inr (arr @ [\<lparr>W = Wm, b = bv\<rparr>], st2))))"

definition weights_loop ::
  "'a jsmath \<Rightarrow> ('s \<Rightarrow> 'a \<times> 's) \<Rightarrow> int list \<Rightarrow> 's \<Rightarrow> error + 'a layer_params list \<times> 's" where
  "weights_loop M rng fc st = foldl (weights_step M rng fc) (Inr ([], st)) [0 ..< length fc - 1]"

text \<open>
  With the closure's variable itself as the state: the loop after
  \<^verbatim>\<open>rng = mulberry32(seed)\<close>, and the memo's value.
\<close>

definition generate ::
  "'a jsmath \<Rightarrow> int list \<Rightarrow> intnum \<Rightarrow> error + 'a layer_params list \<times> intnum" where
  "generate M fc seed = weights_loop M (mulberry32 M) fc seed"

definition weights :: "'a jsmath \<Rightarrow> int list \<Rightarrow> 'a list \<Rightarrow> error + 'a layer_params list" where
  "weights M layers inputVector =
     map_sum id fst (generate M (fullCounts layers inputVector) (seed_of layers inputVector))"

subsection \<open>The same generation on a store\<close>

text \<open>
  The variable a closure captures lives as long as the closure. The store is the
  list of the captured variables of the closures made so far:
  \<^verbatim>\<open>mulberry32(seed)\<close> adds one, holding the seed, and a call of the closure reads
  and writes that one.
\<close>

type_synonym cells = "intnum list"

definition mulberry32_st :: "intnum \<Rightarrow> cells \<Rightarrow> nat \<times> cells" where
  "mulberry32_st seed h = (length h, h @ [seed])"

definition rng_st :: "'a jsmath \<Rightarrow> nat \<Rightarrow> cells \<Rightarrow> 'a \<times> cells" where
  "rng_st M r h = (let (v, seed') = mulberry32 M (h ! r) in (v, h[r := seed']))"

definition generate_st ::
  "'a jsmath \<Rightarrow> int list \<Rightarrow> intnum \<Rightarrow> cells \<Rightarrow> error + 'a layer_params list \<times> cells" where
  "generate_st M fc seed h =
     (let (rng, h1) = mulberry32_st seed h
      in weights_loop M (rng_st M rng) fc h1)"


subsection \<open>Naming the calls of the generator\<close>

text \<open>
  The value returned by call number \<open>k\<close> (counted from 0) of
  \<^verbatim>\<open>rng = mulberry32(seed)\<close>: the call made when the variable has been advanced \<open>k\<close>
  times. \<open>draws_before fc l\<close> is the number of calls a topology \<open>fc\<close> makes for the
  transitions before \<open>l\<close>: one per weight and one per bias.
\<close>

definition rng_call :: "'a jsmath \<Rightarrow> intnum \<Rightarrow> nat \<Rightarrow> 'a" where
  "rng_call M seed k = fst (mulberry32 M ((mulberry32_next ^^ k) seed))"

definition draws_before :: "int list \<Rightarrow> nat \<Rightarrow> nat" where
  "draws_before fc l = (\<Sum>m<l. nat (fc ! (m + 1)) * nat (fc ! m) + nat (fc ! (m + 1)))"

text \<open>
  The parameters of transition \<open>l\<close> written with the calls, when the generator's
  variable is \<open>st\<close> at the start of the transition.
\<close>

definition layer_from :: "'a jsmath \<Rightarrow> int list \<Rightarrow> intnum \<Rightarrow> nat \<Rightarrow> 'a layer_params" where
  "layer_from M fc st l =
     \<lparr>W = map (\<lambda>i. map (\<lambda>j.
              num_mul M
                (num_sub M (num_mul M (rng_call M st (i * nat (fc ! l) + j)) (num_of_int M 2))
                   (num_of_int M 1))
                (Math_sqrt M (num_div M (num_of_int M 1) (num_of_int M (fc ! l)))))
            [0 ..< nat (fc ! l)]) [0 ..< nat (fc ! (l + 1))],
      b = map (\<lambda>i.
              num_mul M
                (num_sub M
                   (num_mul M (rng_call M st (nat (fc ! (l + 1)) * nat (fc ! l) + i)) (num_of_int M 2))
                   (num_of_int M 1))
                (num_0_1 M))
            [0 ..< nat (fc ! (l + 1))]\<rparr>"

text \<open>
  The seed as the specification words it (section 6): \<open>base\<close> plus the sum over the
  hidden and output layers of \<open>(index + 1) * layerSize\<close>, where \<open>base\<close> is
  \<open>input.length * 131\<close> and \<open>index\<close> counts the caller's layers from 0.
\<close>

definition spec_seed :: "nat \<Rightarrow> int list \<Rightarrow> int" where
  "spec_seed input_length topology =
     int input_length * 131 + (\<Sum>index<length topology. (int index + 1) * topology ! index)"

section \<open>Forward evaluation\<close>

text \<open>
  \<^verbatim>\<open>
  const tanh = (x: number) => Math.tanh(x);
  const dot = (a: number[], b: number[]) => a.reduce((s, v, i) => s + v * b[i], 0);
  function matVecMul(W: number[][], x: number[], b?: number[]) {
    return W.map((row, i) => dot(row, x) + (b ? b[i] : 0));
  }
  function applyActivation(x: number[], fn: (v: number) => number) {
    return x.map(fn);
  }
  const allActivations = useMemo(() => {
    const acts: number[][] = [inputVector.slice()];
    for (let l = 0; l < weights.length; l++) {
      const z = matVecMul(weights[l].W, acts[l], weights[l].b);
      const a = applyActivation(z, tanh);
      acts.push(a);
    }
    return acts;
  }, [inputVector, weights]);
  \<close>
  An array is truthy, so \<^verbatim>\<open>b ? b[i] : 0\<close> reads \<^verbatim>\<open>b[i]\<close> whenever the argument is
  given; the optional argument is an \<open>option\<close>.
\<close>

definition tanh_js :: "'a jsmath \<Rightarrow> 'a \<Rightarrow> 'a" where
  "tanh_js M x = Math_tanh M x"

definition dot :: "'a jsmath \<Rightarrow> 'a list \<Rightarrow> 'a list \<Rightarrow> 'a" where
  "dot M a bv = reduce (\<lambda>s v i. num_add M s (num_mul M v (js_index M bv i))) (num_of_int M 0) a"

definition matVecMul :: "'a jsmath \<Rightarrow> 'a list list \<Rightarrow> 'a list \<Rightarrow> 'a list option \<Rightarrow> 'a list" where
  "matVecMul M Wm x bopt =
     map (\<lambda>(i, row). num_add M (dot M row x)
            (case bopt of Some bv \<Rightarrow> js_index M bv i | None \<Rightarrow> num_of_int M 0))
         (List.enumerate 0 Wm)"

definition applyActivation :: "'a list \<Rightarrow> ('a \<Rightarrow> 'a) \<Rightarrow> 'a list" where
  "applyActivation x fn = map fn x"

definition allActivations_step ::
  "'a jsmath \<Rightarrow> 'a layer_params list \<Rightarrow> 'a list list \<Rightarrow> nat \<Rightarrow> 'a list list" where
  "allActivations_step M ws acts l =
     (let z = matVecMul M (W (ws ! l)) (acts ! l) (Some (b (ws ! l)));
          a = applyActivation z (tanh_js M)
      in acts @ [a])"

definition allActivations :: "'a jsmath \<Rightarrow> 'a layer_params list \<Rightarrow> 'a list \<Rightarrow> 'a list list" where
  "allActivations M ws inputVector =
     foldl (allActivations_step M ws) [inputVector] [0 ..< length ws]"

subsection \<open>The same evaluation on a store\<close>

text \<open>
  JavaScript arrays are objects reached through references: \<^verbatim>\<open>inputVector\<close> is the
  caller's array, \<^verbatim>\<open>slice()\<close>, \<^verbatim>\<open>map\<close> and the array literal allocate new ones,
  and \<^verbatim>\<open>acts.push(a)\<close> writes into an existing one. The store is the list of the
  objects allocated so far, a reference is an index into it. The parameters are
  only read and are kept as values.
\<close>

datatype 'a obj = NumArr "'a list" | RefArr "nat list"

type_synonym 'a store = "'a obj list"

definition alloc :: "'a store \<Rightarrow> 'a obj \<Rightarrow> nat \<times> 'a store" where
  "alloc h ob = (length h, h @ [ob])"

definition nums :: "'a store \<Rightarrow> nat \<Rightarrow> 'a list" where
  "nums h r = (case h ! r of NumArr xs \<Rightarrow> xs | RefArr rs \<Rightarrow> [])"

definition refs :: "'a store \<Rightarrow> nat \<Rightarrow> nat list" where
  "refs h r = (case h ! r of RefArr rs \<Rightarrow> rs | NumArr xs \<Rightarrow> [])"

definition push :: "'a store \<Rightarrow> nat \<Rightarrow> nat \<Rightarrow> 'a store" where
  "push h r a = h[r := RefArr (refs h r @ [a])]"

definition slice_st :: "'a store \<Rightarrow> nat \<Rightarrow> nat \<times> 'a store" where
  "slice_st h r = alloc h (NumArr (nums h r))"

definition matVecMul_st ::
  "'a jsmath \<Rightarrow> 'a list list \<Rightarrow> nat \<Rightarrow> 'a list option \<Rightarrow> 'a store \<Rightarrow> nat \<times> 'a store" where
  "matVecMul_st M Wm xr bopt h = alloc h (NumArr (matVecMul M Wm (nums h xr) bopt))"

definition applyActivation_st :: "nat \<Rightarrow> ('a \<Rightarrow> 'a) \<Rightarrow> 'a store \<Rightarrow> nat \<times> 'a store" where
  "applyActivation_st xr fn h = alloc h (NumArr (applyActivation (nums h xr) fn))"

definition allActivations_st_step ::
  "'a jsmath \<Rightarrow> 'a layer_params list \<Rightarrow> nat \<Rightarrow> 'a store \<Rightarrow> nat \<Rightarrow> 'a store" where
  "allActivations_st_step M ws acts h l =
     (let (z, h1) = matVecMul_st M (W (ws ! l)) (refs h acts ! l) (Some (b (ws ! l))) h;
          (a, h2) = applyActivation_st z (tanh_js M) h1
      in push h2 acts a)"

definition allActivations_st ::
  "'a jsmath \<Rightarrow> 'a layer_params list \<Rightarrow> nat \<Rightarrow> 'a store \<Rightarrow> nat \<times> 'a store" where
  "allActivations_st M ws inputVector h =
     (let (c, h1) = slice_st h inputVector;
          (acts, h2) = alloc h1 (RefArr [c])
      in (acts, foldl (allActivations_st_step M ws acts) h2 [0 ..< length ws]))"

text \<open>The trace an evaluation on a store returns, read out of the store it leaves.\<close>

definition trace_of :: "nat \<times> 'a store \<Rightarrow> 'a list list" where
  "trace_of res = map (nums (snd res)) (refs (snd res) (fst res))"

text \<open>
  What holds of the store after \<open>n\<close> rounds of the loop that started in the store \<open>h0\<close>:
  the objects of \<open>h0\<close> are as they were, the array \<^verbatim>\<open>acts\<close> (allocated second) holds
  references to objects allocated since, the first of them the copy of the input,
  and their contents are the trace the evaluation on values builds.
\<close>

definition store_inv ::
  "'a jsmath \<Rightarrow> 'a layer_params list \<Rightarrow> 'a store \<Rightarrow> nat \<Rightarrow> nat \<Rightarrow> 'a store \<Rightarrow> bool" where
  "store_inv M ws h0 inputVector n h \<longleftrightarrow>
     length h0 + 2 \<le> length h \<and>
     take (length h0) h = h0 \<and>
     hd (refs h (Suc (length h0))) = length h0 \<and>
     (\<forall>r \<in> set (refs h (Suc (length h0))). length h0 \<le> r \<and> r < length h \<and> r \<noteq> Suc (length h0)) \<and>
     h ! (Suc (length h0)) = RefArr (refs h (Suc (length h0))) \<and>
     map (nums h) (refs h (Suc (length h0))) =
       foldl (allActivations_step M ws) [nums h0 inputVector] [0 ..< n]"

section \<open>The decision\<close>

text \<open>
  \<^verbatim>\<open>
  function sigmoid(x: number) {
      return 1 / ( 1 + Math.exp(-x) );
  }
  onResult={ (vec) => {
      const left = sigmoid(vec[0]);
      const right = sigmoid(vec[1]);
      if (left > right) { setWinnerID(id1); } else { setWinnerID(id2); }
  } }
  \<close>
  The callback's effect is the identifier it stores; the model returns it.
\<close>

definition sigmoid :: "'a jsmath \<Rightarrow> 'a \<Rightarrow> 'a" where
  "sigmoid M x =
     num_div M (num_of_int M 1) (num_add M (num_of_int M 1) (Math_exp M (num_neg M x)))"

definition onResult :: "'a jsmath \<Rightarrow> 'i \<Rightarrow> 'i \<Rightarrow> 'a list \<Rightarrow> 'i" where
  "onResult M id1 id2 vec =
     (let left = sigmoid M (js_index M vec 0);
          right = sigmoid M (js_index M vec 1)
      in if num_gt M left right then id1 else id2)"



section \<open>Two interpretations of the arithmetic\<close>

text \<open>
  \<open>accurate_arith\<close> says of an interpretation what the decision's examples need: the
  number 1 is 1, negation is exact, and \<^verbatim>\<open>Math.exp\<close>, \<^verbatim>\<open>+\<close> and \<^verbatim>\<open>/\<close> are within
  \<open>1/100\<close> of the exact result on small finite operands. IEEE-754 doubles with any
  usable \<^verbatim>\<open>Math.exp\<close> satisfy it.
\<close>

definition approx :: "'a jsmath \<Rightarrow> 'a \<Rightarrow> real \<Rightarrow> bool" where
  "approx M x r = (case num_val M x of Finite v \<Rightarrow> \<bar>v - r\<bar> \<le> 1 / 100 | _ \<Rightarrow> False)"

definition accurate_arith :: "'a jsmath \<Rightarrow> bool" where
  "accurate_arith M \<longleftrightarrow>
     num_val M (num_of_int M 1) = Finite 1 \<and>
     (\<forall>x a. num_val M x = Finite a \<longrightarrow> num_val M (num_neg M x) = Finite (- a)) \<and>
     (\<forall>x a. num_val M x = Finite a \<longrightarrow> \<bar>a\<bar> \<le> 1 \<longrightarrow> approx M (Math_exp M x) (exp a)) \<and>
     (\<forall>x y a c. num_val M x = Finite a \<longrightarrow> num_val M y = Finite c \<longrightarrow> \<bar>a\<bar> \<le> 4 \<longrightarrow> \<bar>c\<bar> \<le> 4 \<longrightarrow>
        approx M (num_add M x y) (a + c)) \<and>
     (\<forall>x y a c. num_val M x = Finite a \<longrightarrow> num_val M y = Finite c \<longrightarrow> \<bar>a\<bar> \<le> 4 \<longrightarrow> 1 \<le> c \<longrightarrow> c \<le> 8 \<longrightarrow>
        approx M (num_div M x y) (a / c))"

text \<open>
  \<open>exact_math\<close> is arithmetic without rounding on the reals, \<open>None\<close> standing for
  NaN (there are no infinities: a division by zero is NaN). It is not the
  arithmetic of doubles; it is the interpretation at which the theorems are
  instantiated on concrete inputs.
\<close>

definition lift2 :: "(real \<Rightarrow> real \<Rightarrow> real) \<Rightarrow> real option \<Rightarrow> real option \<Rightarrow> real option" where
  "lift2 f x y = (case x of None \<Rightarrow> None | Some a \<Rightarrow> (case y of None \<Rightarrow> None | Some c \<Rightarrow> Some (f a c)))"

definition exact_div :: "real option \<Rightarrow> real option \<Rightarrow> real option" where
  "exact_div x y =
     (case x of None \<Rightarrow> None
      | Some a \<Rightarrow> (case y of None \<Rightarrow> None | Some c \<Rightarrow> if c = 0 then None else Some (a / c)))"

definition exact_sqrt :: "real option \<Rightarrow> real option" where
  "exact_sqrt x = (case x of None \<Rightarrow> None | Some a \<Rightarrow> if a < 0 then None else Some (sqrt a))"

definition exact_val :: "real option \<Rightarrow> fpvalue" where
  "exact_val x = (case x of None \<Rightarrow> NaN | Some a \<Rightarrow> Finite a)"

definition exact_math :: "real option jsmath" where
  "exact_math =
     \<lparr>num_add = lift2 (+), num_sub = lift2 (-), num_mul = lift2 (*), num_div = exact_div,
      num_neg = map_option uminus, Math_sqrt = exact_sqrt, Math_tanh = map_option tanh,
      Math_exp = map_option exp, num_of_int = (\<lambda>n. Some (of_int n)), num_0_1 = Some (1 / 10),
      num_undefined = None, num_val = exact_val\<rparr>"

text \<open>A one-transition parameter list, an input and a store holding it, for concrete instances.\<close>

definition example_params :: "real option layer_params list" where
  "example_params = [\<lparr>W = [[Some 1, Some 2]], b = [Some 0]\<rparr>]"

definition example_input :: "real option list" where
  "example_input = [Some 1, Some 1]"

definition example_store :: "real option store" where
  "example_store = [NumArr example_input]"

section \<open>Double arithmetic on small integers\<close>

lemma bind_result_simps [simp]:
  "bind_result (Inl e) f = Inl e"
  "bind_result (Inr v) f = f v"
  by (simp_all add: bind_result_def)

lemma round_double_exact: "\<bar>n\<bar> < 2 ^ 53 \<Longrightarrow> round_double n = Whole n"
  by (simp add: round_double_def)

lemma reduce_snoc:
  "reduce f init (xs @ [x]) = f (reduce f init xs) x (length xs)"
  by (simp add: reduce_def enumerate_append_eq)

lemma seed_reduce_sum:
  fixes base :: int
  assumes "0 \<le> base"
    and "base + (\<Sum>i<length layers. (int i + 1) * \<bar>layers ! i\<bar>) < 2 ^ 53"
  shows "reduce (\<lambda>s v i. dbl_add s (dbl_mul (int i + 1) v)) (Whole base) layers =
     Whole (base + (\<Sum>i<length layers. (int i + 1) * layers ! i))"
  using assms(2)
proof (induction layers rule: rev_induct)
  case Nil
  show ?case by (simp add: reduce_def)
next
  case (snoc v xs)
  let ?S = "base + (\<Sum>i<length xs. (int i + 1) * xs ! i)"
  let ?B = "base + (\<Sum>i<length xs. (int i + 1) * \<bar>xs ! i\<bar>)"
  let ?p = "(int (length xs) + 1) * v"
  have absnth: "(\<Sum>i<length xs. (int i + 1) * \<bar>(xs @ [v]) ! i\<bar>) =
      (\<Sum>i<length xs. (int i + 1) * \<bar>xs ! i\<bar>)"
    by (rule sum.cong) (simp_all add: nth_append)
  have sumnth: "(\<Sum>i<length xs. (int i + 1) * (xs @ [v]) ! i) =
      (\<Sum>i<length xs. (int i + 1) * xs ! i)"
    by (rule sum.cong) (simp_all add: nth_append)
  from snoc.prems have bound: "?B + (int (length xs) + 1) * \<bar>v\<bar> < 2 ^ 53"
    by (simp add: absnth)
  have nonneg: "0 \<le> (int (length xs) + 1) * \<bar>v\<bar>" by simp
  have B0: "0 \<le> (\<Sum>i<length xs. (int i + 1) * \<bar>xs ! i\<bar>)"
    by (rule sum_nonneg) simp
  from bound nonneg have "?B < 2 ^ 53" by linarith
  then have IH: "reduce (\<lambda>s v i. dbl_add s (dbl_mul (int i + 1) v)) (Whole base) xs = Whole ?S"
    by (rule snoc.IH)
  have "\<bar>\<Sum>i<length xs. (int i + 1) * xs ! i\<bar> \<le> (\<Sum>i<length xs. \<bar>(int i + 1) * xs ! i\<bar>)"
    by (rule sum_abs)
  also have "\<dots> = (\<Sum>i<length xs. (int i + 1) * \<bar>xs ! i\<bar>)"
    by (rule sum.cong) (simp_all add: abs_mult)
  finally have S: "\<bar>?S\<bar> \<le> ?B" using assms(1) by linarith
  have p: "\<bar>?p\<bar> = (int (length xs) + 1) * \<bar>v\<bar>" by (simp add: abs_mult)
  from p bound B0 assms(1) have "\<bar>?p\<bar> < 2 ^ 53" by linarith
  then have mul: "dbl_mul (int (length xs) + 1) v = Whole ?p"
    by (simp add: dbl_mul_def round_double_exact)
  from S p bound have "\<bar>?S + ?p\<bar> < 2 ^ 53" by linarith
  then have add: "dbl_add (Whole ?S) (Whole ?p) = Whole (?S + ?p)"
    by (simp add: round_double_exact)
  show ?case
    by (simp only: reduce_snoc IH mul add) (simp add: sumnth)
qed

lemma seed_of_exact:
  assumes "int (length x) * 131 + (\<Sum>i<length layers. (int i + 1) * \<bar>layers ! i\<bar>) < 2 ^ 53"
  shows "seed_of layers x =
     Whole (int (length x) * 131 + (\<Sum>i<length layers. (int i + 1) * layers ! i))"
proof -
  have B0: "0 \<le> (\<Sum>i<length layers. (int i + 1) * \<bar>layers ! i\<bar>)"
    by (rule sum_nonneg) simp
  with assms have "\<bar>int (length x) * 131\<bar> < 2 ^ 53" by simp
  then have base: "dbl_mul (int (length x)) 131 = Whole (int (length x) * 131)"
    by (simp add: dbl_mul_def round_double_exact)
  show ?thesis
    unfolding seed_of_def base
    by (rule seed_reduce_sum) (use assms in simp_all)
qed

lemma seed_of_example: "seed_of [6, 3, 5, 2] [x0, x1] = Whole 297"
  using seed_of_exact [of "[x0, x1]" "[6, 3, 5, 2]"]
  by (simp add: lessThan_Suc numeral_eq_Suc)

section \<open>Weight generation: shapes, formulas and the order of draws\<close>

lemma array_from_loop_total:
  assumes "\<And>s. g s = Inr (out s, adv s)"
  shows "array_from_loop n g s = Inr (map (\<lambda>i. out ((adv ^^ i) s)) [0 ..< n], (adv ^^ n) s)"
proof (induction n arbitrary: s)
  case 0
  show ?case by simp
next
  case (Suc n)
  note gs = assms [of s]
  show ?case
    by (simp only: array_from_loop.simps gs Suc.IH bind_result_simps prod.case map_upt_Suc)
       (simp add: funpow_swap1)
qed

lemma array_from_total:
  assumes "\<And>s. g s = Inr (out s, adv s)" and "n < 2 ^ 32"
  shows "array_from n g s =
     Inr (map (\<lambda>i. out ((adv ^^ i) s)) [0 ..< nat n], (adv ^^ nat n) s)"
proof -
  from assms(2) have "ToLength n = max n 0" and "\<not> 2 ^ 32 \<le> max n 0"
    by (simp_all add: ToLength_def)
  then show ?thesis
    by (simp add: array_from_def array_from_loop_total [of g out adv, OF assms(1)] max_def)
qed

lemma array_from_RangeError: "2 ^ 32 \<le> n \<Longrightarrow> array_from n g s = Inl RangeError"
  by (simp add: array_from_def ToLength_def)



lemma mulberry32_state: "snd (mulberry32 M s) = mulberry32_next s"
  by (simp add: mulberry32_def Let_def)

lemma rng_call_0: "fst (mulberry32 M s) = rng_call M s 0"
  by (simp add: rng_call_def)

lemma next_merge:
  "(mulberry32_next ^^ a) ((mulberry32_next ^^ c) s) = (mulberry32_next ^^ (a + c)) s"
  by (simp add: funpow_add)

lemma rng_call_shift: "rng_call M ((mulberry32_next ^^ k) s) j = rng_call M s (k + j)"
  by (simp add: rng_call_def funpow_add add.commute)

lemma weight_entry_eq:
  "weight_entry M (mulberry32 M) scale s =
     Inr (num_mul M (num_sub M (num_mul M (rng_call M s 0) (num_of_int M 2)) (num_of_int M 1)) scale,
          mulberry32_next s)"
  by (simp add: weight_entry_def split_beta rng_call_0 mulberry32_state)

lemma bias_entry_eq:
  "bias_entry M (mulberry32 M) s =
     Inr (num_mul M (num_sub M (num_mul M (rng_call M s 0) (num_of_int M 2)) (num_of_int M 1))
            (num_0_1 M),
          mulberry32_next s)"
  by (simp add: bias_entry_def split_beta rng_call_0 mulberry32_state)

lemma row_eq:
  assumes "n < 2 ^ 32"
  shows "array_from n (weight_entry M (mulberry32 M) scale) s =
     Inr (map (\<lambda>j. num_mul M
                  (num_sub M (num_mul M (rng_call M s j) (num_of_int M 2)) (num_of_int M 1)) scale)
            [0 ..< nat n],
          (mulberry32_next ^^ nat n) s)"
  using array_from_total [where g = "weight_entry M (mulberry32 M) scale" and adv = mulberry32_next
      and out = "\<lambda>s. num_mul M
        (num_sub M (num_mul M (rng_call M s 0) (num_of_int M 2)) (num_of_int M 1)) scale"
      and n = n and s = s, OF weight_entry_eq assms]
  by (simp add: rng_call_shift)

lemma matrix_eq:
  assumes "n < 2 ^ 32" "m < 2 ^ 32"
  shows "array_from m (array_from n (weight_entry M (mulberry32 M) scale)) s =
     Inr (map (\<lambda>i. map (\<lambda>j. num_mul M
                  (num_sub M (num_mul M (rng_call M s (i * nat n + j)) (num_of_int M 2))
                     (num_of_int M 1)) scale)
            [0 ..< nat n]) [0 ..< nat m],
          (mulberry32_next ^^ (nat m * nat n)) s)"
  using array_from_total [where g = "array_from n (weight_entry M (mulberry32 M) scale)"
      and adv = "mulberry32_next ^^ nat n"
      and out = "\<lambda>s. map (\<lambda>j. num_mul M
        (num_sub M (num_mul M (rng_call M s j) (num_of_int M 2)) (num_of_int M 1)) scale)
        [0 ..< nat n]"
      and n = m and s = s, OF row_eq [OF assms(1)] assms(2)]
  by (simp add: funpow_mult rng_call_shift ac_simps)

lemma bias_vec_eq:
  assumes "m < 2 ^ 32"
  shows "array_from m (bias_entry M (mulberry32 M)) s =
     Inr (map (\<lambda>i. num_mul M
                  (num_sub M (num_mul M (rng_call M s i) (num_of_int M 2)) (num_of_int M 1))
                  (num_0_1 M))
            [0 ..< nat m],
          (mulberry32_next ^^ nat m) s)"
  using array_from_total [where g = "bias_entry M (mulberry32 M)" and adv = mulberry32_next
      and out = "\<lambda>s. num_mul M
        (num_sub M (num_mul M (rng_call M s 0) (num_of_int M 2)) (num_of_int M 1)) (num_0_1 M)"
      and n = m and s = s, OF bias_entry_eq assms]
  by (simp add: rng_call_shift)

lemma weights_step_eq:
  assumes "fc ! l < 2 ^ 32" "fc ! (l + 1) < 2 ^ 32"
  shows "weights_step M (mulberry32 M) fc (Inr (arr, st)) l =
     Inr (arr @ [layer_from M fc st l],
          (mulberry32_next ^^ (nat (fc ! (l + 1)) * nat (fc ! l) + nat (fc ! (l + 1)))) st)"
proof -
  from assms(2) have out: "fc ! Suc l < 2 ^ 32" by simp
  show ?thesis
    by (simp add: weights_step_def Let_def matrix_eq [OF assms(1) out] bias_vec_eq [OF out]
        layer_from_def rng_call_shift next_merge ac_simps)
qed

lemma draws_before_Suc:
  "draws_before fc (Suc n) = draws_before fc n + (nat (fc ! (n + 1)) * nat (fc ! n) + nat (fc ! (n + 1)))"
  by (simp add: draws_before_def)

lemma generate_upto:
  assumes "\<forall>v \<in> set fc. v < 2 ^ 32"
  shows "n \<le> length fc - 1 \<Longrightarrow>
     foldl (weights_step M (mulberry32 M) fc) (Inr ([], seed)) [0 ..< n] =
     Inr (map (\<lambda>l. layer_from M fc ((mulberry32_next ^^ draws_before fc l) seed) l) [0 ..< n],
          (mulberry32_next ^^ draws_before fc n) seed)"
proof (induction n)
  case 0
  show ?case by (simp add: draws_before_def)
next
  case (Suc n)
  then have "n < length fc" "n + 1 < length fc" by simp_all
  with assms have small: "fc ! n < 2 ^ 32" "fc ! (n + 1) < 2 ^ 32"
    by (simp_all only: nth_mem)
  from Suc have IH: "foldl (weights_step M (mulberry32 M) fc) (Inr ([], seed)) [0 ..< n] =
     Inr (map (\<lambda>l. layer_from M fc ((mulberry32_next ^^ draws_before fc l) seed) l) [0 ..< n],
          (mulberry32_next ^^ draws_before fc n) seed)"
    by simp
  show ?case
    by (simp only: upt_Suc_append [OF le0] foldl_append foldl.simps IH weights_step_eq [OF small])
       (simp add: draws_before_Suc next_merge ac_simps)
qed

lemma generate_eq:
  assumes "\<forall>v \<in> set fc. v < 2 ^ 32"
  shows "generate M fc seed =
     Inr (map (\<lambda>l. layer_from M fc ((mulberry32_next ^^ draws_before fc l) seed) l)
            [0 ..< length fc - 1],
          (mulberry32_next ^^ draws_before fc (length fc - 1)) seed)"
  unfolding generate_def weights_loop_def
  by (rule generate_upto [OF assms]) simp

lemma layer_from_W_length: "length (W (layer_from M fc st l)) = nat (fc ! (l + 1))"
  by (simp add: layer_from_def)

lemma layer_from_b_length: "length (b (layer_from M fc st l)) = nat (fc ! (l + 1))"
  by (simp add: layer_from_def)

lemma layer_from_row_length:
  "i < nat (fc ! (l + 1)) \<Longrightarrow> length (W (layer_from M fc st l) ! i) = nat (fc ! l)"
  by (simp add: layer_from_def)

lemma layer_from_W_entry:
  "i < nat (fc ! (l + 1)) \<Longrightarrow> j < nat (fc ! l) \<Longrightarrow>
   W (layer_from M fc ((mulberry32_next ^^ k) seed) l) ! i ! j =
     num_mul M (num_sub M (num_mul M (rng_call M seed (k + i * nat (fc ! l) + j)) (num_of_int M 2))
                 (num_of_int M 1))
       (Math_sqrt M (num_div M (num_of_int M 1) (num_of_int M (fc ! l))))"
  by (simp add: layer_from_def rng_call_shift ac_simps)

lemma layer_from_b_entry:
  "i < nat (fc ! (l + 1)) \<Longrightarrow>
   b (layer_from M fc ((mulberry32_next ^^ k) seed) l) ! i =
     num_mul M (num_sub M (num_mul M (rng_call M seed (k + nat (fc ! (l + 1)) * nat (fc ! l) + i))
                   (num_of_int M 2))
                 (num_of_int M 1)) (num_0_1 M)"
  by (simp add: layer_from_def rng_call_shift ac_simps)








text \<open>
  The first call of \<^verbatim>\<open>mulberry32(297)\<close>: the variable becomes 1831566110 and the
  32-bit value is 1261961279. From \<open>2 ^ 53\<close> the variable's additions round.
\<close>

lemma mulberry32_first_draw: "mulberry32_bits (Whole 1831566110) = 1261961279"
  by code_simp

lemma mulberry32_next_297: "mulberry32_next (Whole 297) = Whole 1831566110"
  by (simp add: mulberry32_next_def mulberry32_increment_def round_double_exact)

lemma mulberry32_first_call:
  "mulberry32 exact_math (Whole 297) = (Some (1261961279 / 4294967296), Whole 1831566110)"
  by (simp add: mulberry32_def Let_def mulberry32_first_draw exact_math_def exact_div_def
      mulberry32_next_297)

lemma mulberry32_next_rounds:
  "mulberry32_next (Whole (2 ^ 53)) = Whole 9007201086306804"
  by code_simp

text \<open>
  C2 (as amended). For every topology \<open>fc = [n0, ..., nk]\<close> whose sizes are all below
  \<open>2 ^ 32\<close> and every seed, the generation loop returns \<open>k\<close> transitions
  (\<open>length fc - 1\<close>). In transition \<open>l\<close> the weight matrix has \<open>n_(l+1)\<close> rows of
  length \<open>n_l\<close> and the bias vector has \<open>n_(l+1)\<close> entries. The entry in row \<open>i\<close> and
  column \<open>j\<close> is \<open>(r * 2 - 1) * sqrt (1 / n_l)\<close> for the value \<open>r\<close> of the generator's
  call number \<open>draws_before fc l + i * n_l + j\<close>, and bias entry \<open>i\<close> is
  \<open>(r * 2 - 1) * 0.1\<close> for the value \<open>r\<close> of call number
  \<open>draws_before fc l + n_(l+1) * n_l + i\<close>: the calls are consumed row by row over
  the whole matrix of a transition, then by its bias vector, then by the next
  transition. (A size that is not positive counts as 0, as ToLength makes it.)
\<close>

theorem generate_shapes_and_draw_order:
  assumes "\<forall>v \<in> set fc. v < 2 ^ 32"
  shows "\<exists>params st.
     generate M fc seed = Inr (params, st) \<and>
     length params = length fc - 1 \<and>
     (\<forall>l<length fc - 1.
        length (W (params ! l)) = nat (fc ! (l + 1)) \<and>
        length (b (params ! l)) = nat (fc ! (l + 1)) \<and>
        (\<forall>i<nat (fc ! (l + 1)).
           length (W (params ! l) ! i) = nat (fc ! l) \<and>
           (\<forall>j<nat (fc ! l).
              W (params ! l) ! i ! j =
                num_mul M
                  (num_sub M
                     (num_mul M (rng_call M seed (draws_before fc l + i * nat (fc ! l) + j))
                        (num_of_int M 2))
                     (num_of_int M 1))
                  (Math_sqrt M (num_div M (num_of_int M 1) (num_of_int M (fc ! l))))) \<and>
           b (params ! l) ! i =
             num_mul M
               (num_sub M
                  (num_mul M
                     (rng_call M seed (draws_before fc l + nat (fc ! (l + 1)) * nat (fc ! l) + i))
                     (num_of_int M 2))
                  (num_of_int M 1))
               (num_0_1 M)))"
proof -
  define params where
    "params = map (\<lambda>l. layer_from M fc ((mulberry32_next ^^ draws_before fc l) seed) l)
       [0 ..< length fc - 1]"
  have nth: "params ! l = layer_from M fc ((mulberry32_next ^^ draws_before fc l) seed) l"
    if "l < length fc - 1" for l
    using that by (simp add: params_def)
  have gen: "generate M fc seed =
      Inr (params, (mulberry32_next ^^ draws_before fc (length fc - 1)) seed)"
    unfolding params_def by (rule generate_eq [OF assms])
  have len: "length params = length fc - 1"
    by (simp add: params_def)
  have shapes: "\<forall>l<length fc - 1.
        length (W (params ! l)) = nat (fc ! (l + 1)) \<and>
        length (b (params ! l)) = nat (fc ! (l + 1)) \<and>
        (\<forall>i<nat (fc ! (l + 1)).
           length (W (params ! l) ! i) = nat (fc ! l) \<and>
           (\<forall>j<nat (fc ! l).
              W (params ! l) ! i ! j =
                num_mul M
                  (num_sub M
                     (num_mul M (rng_call M seed (draws_before fc l + i * nat (fc ! l) + j))
                        (num_of_int M 2))
                     (num_of_int M 1))
                  (Math_sqrt M (num_div M (num_of_int M 1) (num_of_int M (fc ! l))))) \<and>
           b (params ! l) ! i =
             num_mul M
               (num_sub M
                  (num_mul M
                     (rng_call M seed (draws_before fc l + nat (fc ! (l + 1)) * nat (fc ! l) + i))
                     (num_of_int M 2))
                  (num_of_int M 1))
               (num_0_1 M))"
  proof (intro allI impI conjI)
    fix l assume "l < length fc - 1"
    then show "length (W (params ! l)) = nat (fc ! (l + 1))"
      by (simp only: nth layer_from_W_length)
  next
    fix l assume "l < length fc - 1"
    then show "length (b (params ! l)) = nat (fc ! (l + 1))"
      by (simp only: nth layer_from_b_length)
  next
    fix l i assume "l < length fc - 1" "i < nat (fc ! (l + 1))"
    then show "length (W (params ! l) ! i) = nat (fc ! l)"
      by (simp only: nth layer_from_row_length)
  next
    fix l i j assume "l < length fc - 1" "i < nat (fc ! (l + 1))" "j < nat (fc ! l)"
    then show "W (params ! l) ! i ! j =
                num_mul M
                  (num_sub M
                     (num_mul M (rng_call M seed (draws_before fc l + i * nat (fc ! l) + j))
                        (num_of_int M 2))
                     (num_of_int M 1))
                  (Math_sqrt M (num_div M (num_of_int M 1) (num_of_int M (fc ! l))))"
      by (simp only: nth layer_from_W_entry)
  next
    fix l i assume "l < length fc - 1" "i < nat (fc ! (l + 1))"
    then show "b (params ! l) ! i =
             num_mul M
               (num_sub M
                  (num_mul M
                     (rng_call M seed (draws_before fc l + nat (fc ! (l + 1)) * nat (fc ! l) + i))
                     (num_of_int M 2))
                  (num_of_int M 1))
               (num_0_1 M)"
      by (simp only: nth layer_from_b_entry)
  qed
  from gen len shapes show ?thesis by blast
qed

theorem generate_shapes_and_draw_order_witness:
  "(2::int) < 2 ^ 32 \<and> (3::int) < 2 ^ 32 \<and>
   (\<exists>params st.
      generate exact_math [2, 3] (Whole 297) = Inr (params, st) \<and>
      length params = 1 \<and>
      length (W (params ! 0)) = 3 \<and>
      length (b (params ! 0)) = 3 \<and>
      length (W (params ! 0) ! 1) = 2 \<and>
      W (params ! 0) ! 1 ! 1 =
        num_mul exact_math
          (num_sub exact_math
             (num_mul exact_math (rng_call exact_math (Whole 297) 3) (num_of_int exact_math 2))
             (num_of_int exact_math 1))
          (Math_sqrt exact_math (num_div exact_math (num_of_int exact_math 1) (num_of_int exact_math 2))) \<and>
      b (params ! 0) ! 1 =
        num_mul exact_math
          (num_sub exact_math
             (num_mul exact_math (rng_call exact_math (Whole 297) 7) (num_of_int exact_math 2))
             (num_of_int exact_math 1))
          (num_0_1 exact_math))"
proof -
  have small: "\<forall>v \<in> set [2, 3 :: int]. v < 2 ^ 32" by simp
  from generate_shapes_and_draw_order [OF small, of exact_math "Whole 297"]
  obtain params st where gen: "generate exact_math [2, 3] (Whole 297) = Inr (params, st)"
    and len: "length params = length [2, 3 :: int] - 1"
    and t: "\<forall>l<length [2, 3 :: int] - 1.
        length (W (params ! l)) = nat ([2, 3] ! (l + 1)) \<and>
        length (b (params ! l)) = nat ([2, 3] ! (l + 1)) \<and>
        (\<forall>i<nat ([2, 3] ! (l + 1)).
           length (W (params ! l) ! i) = nat ([2, 3] ! l) \<and>
           (\<forall>j<nat ([2, 3] ! l).
              W (params ! l) ! i ! j =
                num_mul exact_math
                  (num_sub exact_math
                     (num_mul exact_math
                        (rng_call exact_math (Whole 297) (draws_before [2, 3] l + i * nat ([2, 3] ! l) + j))
                        (num_of_int exact_math 2))
                     (num_of_int exact_math 1))
                  (Math_sqrt exact_math
                     (num_div exact_math (num_of_int exact_math 1) (num_of_int exact_math ([2, 3] ! l))))) \<and>
           b (params ! l) ! i =
             num_mul exact_math
               (num_sub exact_math
                  (num_mul exact_math
                     (rng_call exact_math (Whole 297)
                        (draws_before [2, 3] l + nat ([2, 3] ! (l + 1)) * nat ([2, 3] ! l) + i))
                     (num_of_int exact_math 2))
                  (num_of_int exact_math 1))
               (num_0_1 exact_math))"
    by blast
  have l: "(0::nat) < length [2, 3 :: int] - 1" by simp
  have i: "(1::nat) < nat ([2, 3 :: int] ! (0 + 1))" by simp
  have j: "(1::nat) < nat ([2, 3 :: int] ! 0)" by simp
  note tl = t [rule_format, OF l]
  note ti = tl [THEN conjunct2, THEN conjunct2, rule_format, OF i]
  note tj = ti [THEN conjunct2, THEN conjunct1, rule_format, OF j]
  from gen len tl ti tj have body:
    "generate exact_math [2, 3] (Whole 297) = Inr (params, st) \<and>
      length params = 1 \<and>
      length (W (params ! 0)) = 3 \<and>
      length (b (params ! 0)) = 3 \<and>
      length (W (params ! 0) ! 1) = 2 \<and>
      W (params ! 0) ! 1 ! 1 =
        num_mul exact_math
          (num_sub exact_math
             (num_mul exact_math (rng_call exact_math (Whole 297) 3) (num_of_int exact_math 2))
             (num_of_int exact_math 1))
          (Math_sqrt exact_math (num_div exact_math (num_of_int exact_math 1) (num_of_int exact_math 2))) \<and>
      b (params ! 0) ! 1 =
        num_mul exact_math
          (num_sub exact_math
             (num_mul exact_math (rng_call exact_math (Whole 297) 7) (num_of_int exact_math 2))
             (num_of_int exact_math 1))
          (num_0_1 exact_math)"
    by (simp add: draws_before_def)
  show ?thesis
  proof (intro conjI)
    show "(2::int) < 2 ^ 32" by simp
    show "(3::int) < 2 ^ 32" by simp
    from body show "\<exists>params st.
      generate exact_math [2, 3] (Whole 297) = Inr (params, st) \<and>
      length params = 1 \<and>
      length (W (params ! 0)) = 3 \<and>
      length (b (params ! 0)) = 3 \<and>
      length (W (params ! 0) ! 1) = 2 \<and>
      W (params ! 0) ! 1 ! 1 =
        num_mul exact_math
          (num_sub exact_math
             (num_mul exact_math (rng_call exact_math (Whole 297) 3) (num_of_int exact_math 2))
             (num_of_int exact_math 1))
          (Math_sqrt exact_math (num_div exact_math (num_of_int exact_math 1) (num_of_int exact_math 2))) \<and>
      b (params ! 0) ! 1 =
        num_mul exact_math
          (num_sub exact_math
             (num_mul exact_math (rng_call exact_math (Whole 297) 7) (num_of_int exact_math 2))
             (num_of_int exact_math 1))
          (num_0_1 exact_math)"
      by (intro exI)
  qed
qed

text \<open>
  C2 as stated, for every topology, fails: for the topology \<open>[2, 4294967296]\<close>, and
  for the layer \<open>[4294967296]\<close> on a two-element input, \<^verbatim>\<open>Array.from\<close> raises
  \<^verbatim>\<open>RangeError\<close> and no transition is produced.
\<close>

theorem generate_counterexample:
  "generate exact_math [2, 4294967296] (Whole 297) = Inl RangeError \<and>
   weights exact_math [4294967296] example_input = Inl RangeError"
  by (simp add: weights_def fullCounts_def generate_def weights_loop_def weights_step_def
      array_from_def ToLength_def example_input_def)

text \<open>
  C3 (as amended). For every input vector and layer list with
  \<open>input.length * 131\<close> plus the sum of \<open>(i + 1) * |layers[i]|\<close> below \<open>2 ^ 53\<close>, the
  seed is \<open>input.length * 131\<close> plus the sum, over the caller's layer list with
  zero-based index \<open>i\<close>, of \<open>(i + 1) * layers[i]\<close>, and the weights are generated for
  the topology \<open>[input.length, ...layers]\<close> from that seed; for an input of length 2
  and the layers \<open>[6, 3, 5, 2]\<close> the seed is 297.
\<close>

theorem seed_formula:
  assumes "int (length x) * 131 + (\<Sum>i<length layers. (int i + 1) * \<bar>layers ! i\<bar>) < 2 ^ 53"
  shows "seed_of layers x =
           Whole (int (length x) * 131 + (\<Sum>i<length layers. (int i + 1) * layers ! i)) \<and>
         weights M layers x =
           map_sum id fst
             (generate M (int (length x) # layers)
                (Whole (int (length x) * 131 + (\<Sum>i<length layers. (int i + 1) * layers ! i)))) \<and>
         seed_of [6, 3, 5, 2] [x0, x1] = Whole 297"
  using seed_of_exact [OF assms]
  by (simp add: weights_def fullCounts_def seed_of_example)

theorem seed_formula_witness:
  "int (length example_input) * 131 + (\<Sum>i<length [6, 3, 5, 2 :: int]. (int i + 1) * \<bar>[6, 3, 5, 2] ! i\<bar>)
     < 2 ^ 53 \<and>
   seed_of [6, 3, 5, 2] example_input = Whole 297 \<and>
   weights exact_math [6, 3, 5, 2] example_input =
     map_sum id fst (generate exact_math [2, 6, 3, 5, 2] (Whole 297))"
proof -
  have a: "int (length example_input) * 131 +
      (\<Sum>i<length [6, 3, 5, 2 :: int]. (int i + 1) * \<bar>[6, 3, 5, 2] ! i\<bar>) < 2 ^ 53"
    by (simp add: example_input_def lessThan_Suc numeral_eq_Suc)
  from a seed_formula [OF a, where M = exact_math and ?x0.0 = "0::nat" and ?x1.0 = "0::nat"]
  show ?thesis
    by (simp add: example_input_def lessThan_Suc numeral_eq_Suc)
qed

text \<open>
  C3 as stated, for every layer list, fails: the sums are double additions and
  round. For the layers \<open>[-2^60, 1]\<close> and a two-element input the seed is
  \<open>-1152921504606846720\<close>; the formula (\<open>spec_seed\<close>) gives \<open>-1152921504606846712\<close>.
\<close>

theorem seed_formula_counterexample:
  "seed_of [- (2 ^ 60), 1] example_input = Whole (- 1152921504606846720) \<and>
   spec_seed (length example_input) [- (2 ^ 60), 1] = - 1152921504606846712 \<and>
   seed_of [- (2 ^ 60), 1] example_input \<noteq> Whole (spec_seed (length example_input) [- (2 ^ 60), 1])"
proof -
  have s: "seed_of [- (2 ^ 60), 1] example_input = Whole (- 1152921504606846720)"
    by code_simp
  have f: "spec_seed (length example_input) [- (2 ^ 60), 1] = - 1152921504606846712"
    by (simp add: spec_seed_def example_input_def lessThan_Suc numeral_eq_Suc)
  from s f show ?thesis
    by simp
qed

section \<open>Forward evaluation: the trace\<close>

lemma zip_snoc_left:
  "length a < length bv \<Longrightarrow> zip (a @ [v]) bv = zip a bv @ [(v, bv ! length a)]"
proof (induction a arbitrary: bv)
  case Nil
  then show ?case by (cases bv) auto
next
  case (Cons x a)
  then show ?case by (cases bv) auto
qed

lemma matVecMul_length: "length (matVecMul M Wm x bopt) = length Wm"
  by (simp add: matVecMul_def)

lemma matVecMul_nth:
  "i < length Wm \<Longrightarrow> matVecMul M Wm x (Some bv) ! i = num_add M (dot M (Wm ! i) x) (js_index M bv i)"
  by (simp add: matVecMul_def nth_enumerate_eq)

lemma applyActivation_length: "length (applyActivation z fn) = length z"
  by (simp add: applyActivation_def)

lemma dot_snoc:
  "dot M (a @ [v]) bv = num_add M (dot M a bv) (num_mul M v (js_index M bv (length a)))"
  by (simp add: dot_def reduce_snoc)

lemma dot_zip:
  "length a \<le> length bv \<Longrightarrow>
   dot M a bv = foldl (\<lambda>s (v, w). num_add M s (num_mul M v w)) (num_of_int M 0) (zip a bv)"
proof (induction a rule: rev_induct)
  case Nil
  show ?case by (simp add: dot_def reduce_def)
next
  case (snoc v a)
  then have len: "length a < length bv" by simp
  with snoc show ?case
    by (simp add: dot_snoc js_index_def zip_snoc_left)
qed

lemma acts_Suc:
  "foldl (allActivations_step M ws) [x] [0 ..< Suc n] =
     foldl (allActivations_step M ws) [x] [0 ..< n] @
       [applyActivation
          (matVecMul M (W (ws ! n)) (foldl (allActivations_step M ws) [x] [0 ..< n] ! n) (Some (b (ws ! n))))
          (tanh_js M)]"
  by (simp add: allActivations_step_def Let_def)

lemma acts_length: "length (foldl (allActivations_step M ws) [x] [0 ..< n]) = n + 1"
proof (induction n)
  case 0
  show ?case by simp
next
  case (Suc n)
  then show ?case by (simp only: acts_Suc length_append) simp
qed

lemma acts_stable:
  "i \<le> m \<Longrightarrow> m \<le> n \<Longrightarrow>
   foldl (allActivations_step M ws) [x] [0 ..< n] ! i = foldl (allActivations_step M ws) [x] [0 ..< m] ! i"
proof (induction n)
  case 0
  then show ?case by simp
next
  case (Suc n)
  show ?case
  proof (cases "m = Suc n")
    case True
    then show ?thesis by simp
  next
    case False
    with Suc.prems have mn: "m \<le> n" by simp
    with Suc.prems have "i < length (foldl (allActivations_step M ws) [x] [0 ..< n])"
      by (simp add: acts_length)
    then have "foldl (allActivations_step M ws) [x] [0 ..< Suc n] ! i =
        foldl (allActivations_step M ws) [x] [0 ..< n] ! i"
      by (simp only: acts_Suc nth_append if_True)
    with Suc.IH [OF Suc.prems(1) mn] show ?thesis by simp
  qed
qed

lemma acts_0: "foldl (allActivations_step M ws) [x] [0 ..< n] ! 0 = x"
  using acts_stable [of 0 0 n M ws x] by simp

lemma acts_next:
  assumes "l < n"
  shows "foldl (allActivations_step M ws) [x] [0 ..< n] ! (l + 1) =
     applyActivation
       (matVecMul M (W (ws ! l)) (foldl (allActivations_step M ws) [x] [0 ..< n] ! l) (Some (b (ws ! l))))
       (tanh_js M)"
proof -
  have a: "foldl (allActivations_step M ws) [x] [0 ..< n] ! (l + 1) =
      foldl (allActivations_step M ws) [x] [0 ..< Suc l] ! (l + 1)"
    using assms by (intro acts_stable) simp_all
  have b: "foldl (allActivations_step M ws) [x] [0 ..< n] ! l =
      foldl (allActivations_step M ws) [x] [0 ..< l] ! l"
    using assms by (intro acts_stable) simp_all
  have "foldl (allActivations_step M ws) [x] [0 ..< Suc l] ! (l + 1) =
      applyActivation
       (matVecMul M (W (ws ! l)) (foldl (allActivations_step M ws) [x] [0 ..< l] ! l) (Some (b (ws ! l))))
       (tanh_js M)"
    by (simp only: acts_Suc) (simp add: nth_append acts_length)
  with a b show ?thesis by simp
qed

lemma allActivations_length: "length (allActivations M ws x) = length ws + 1"
  by (simp add: allActivations_def acts_length)

lemma allActivations_0: "allActivations M ws x ! 0 = x"
  by (simp add: allActivations_def acts_0)

lemma allActivations_next:
  "l < length ws \<Longrightarrow> allActivations M ws x ! Suc l =
     map (Math_tanh M) (matVecMul M (W (ws ! l)) (allActivations M ws x ! l) (Some (b (ws ! l))))"
proof -
  assume "l < length ws"
  then have "allActivations M ws x ! Suc l =
     applyActivation (matVecMul M (W (ws ! l)) (allActivations M ws x ! l) (Some (b (ws ! l)))) (tanh_js M)"
    unfolding allActivations_def using acts_next [of l "length ws" M ws x] by simp
  also have "tanh_js M = Math_tanh M"
    by (rule ext) (simp add: tanh_js_def)
  finally show ?thesis by (simp add: applyActivation_def)
qed

lemma allActivations_next_length:
  "l < length ws \<Longrightarrow> length (allActivations M ws x ! Suc l) = length (W (ws ! l))"
  by (simp add: allActivations_next matVecMul_length)

lemma allActivations_last:
  assumes "ws \<noteq> []"
  shows "last (allActivations M ws x) =
     map (Math_tanh M)
       (matVecMul M (W (last ws)) (allActivations M ws x ! (length ws - 1)) (Some (b (last ws))))"
proof -
  from assms have l: "length ws - 1 < length ws" by simp
  have "allActivations M ws x \<noteq> []"
    using allActivations_length [of M ws x] by auto
  then have "last (allActivations M ws x) = allActivations M ws x ! Suc (length ws - 1)"
    using assms by (simp add: last_conv_nth allActivations_length)
  also note allActivations_next [OF l]
  finally show ?thesis using assms by (simp add: last_conv_nth)
qed

lemma allActivations_shape:
  "map length (allActivations M ws x) = length x # map (\<lambda>p. length (W p)) ws"
proof (rule nth_equalityI)
  show "length (map length (allActivations M ws x)) = length (length x # map (\<lambda>p. length (W p)) ws)"
    by (simp add: allActivations_length)
next
  fix i assume "i < length (map length (allActivations M ws x))"
  then have i: "i < length ws + 1" by (simp add: allActivations_length)
  show "map length (allActivations M ws x) ! i = (length x # map (\<lambda>p. length (W p)) ws) ! i"
  proof (cases i)
    case 0
    then show ?thesis by (simp add: allActivations_length allActivations_0)
  next
    case (Suc l)
    with i have "l < length ws" by simp
    with Suc show ?thesis
      using allActivations_next_length [of l ws M x]
      by (simp add: allActivations_length)
  qed
qed

lemma weights_eq:
  assumes "\<forall>v \<in> set (fullCounts layers x). v < 2 ^ 32"
  shows "weights M layers x =
     Inr (map (\<lambda>l. layer_from M (fullCounts layers x)
                 ((mulberry32_next ^^ draws_before (fullCounts layers x) l) (seed_of layers x)) l)
            [0 ..< length layers])"
  by (simp add: weights_def generate_eq [OF assms]) (simp add: fullCounts_def)

lemma weights_shape:
  assumes "\<forall>v \<in> set (fullCounts layers x). v < 2 ^ 32"
  shows "\<exists>ws. weights M layers x = Inr ws \<and> length ws = length layers \<and>
     map (\<lambda>p. length (W p)) ws = map nat layers"
proof -
  have "map (\<lambda>p. length (W p))
      (map (\<lambda>l. layer_from M (fullCounts layers x)
                 ((mulberry32_next ^^ draws_before (fullCounts layers x) l) (seed_of layers x)) l)
            [0 ..< length layers]) = map nat layers"
    by (rule nth_equalityI) (simp_all add: layer_from_W_length fullCounts_def)
  then show ?thesis
    by (simp add: weights_eq [OF assms])
qed

lemma trace_shape:
  assumes "\<forall>v \<in> set (fullCounts layers x). v < 2 ^ 32"
  shows "\<exists>ws. weights M layers x = Inr ws \<and>
     map length (allActivations M ws x) = length x # map nat layers"
  using weights_shape [OF assms, of M] by (auto simp: allActivations_shape)

text \<open>
  C1. For every parameter list \<open>ws\<close> and input \<open>x\<close>, the trace has one element per
  layer, element 0 is the input, and element \<open>l + 1\<close> is \<^verbatim>\<open>Math.tanh\<close> applied
  elementwise to \<open>z\<close>, where \<open>z[i]\<close> is \<open>dot(W_l[i], trace[l]) + b_l[i]\<close>; \<open>dot\<close> is the
  left-to-right sum of products (when the row is no longer than the vector) and
  \<open>b_l[i]\<close> is the array element (when it exists). The last element is again a
  \<^verbatim>\<open>tanh\<close> image: no sigmoid is applied. With the parameters generated for the
  layers \<open>[6, 3, 5, 2]\<close> and a 2-element input, the element lengths of the trace are
  \<open>[2, 6, 3, 5, 2]\<close>.
\<close>

theorem forward_evaluation:
  fixes M :: "'a jsmath" and ws :: "'a layer_params list" and x :: "'a list"
  defines "trace \<equiv> allActivations M ws x"
  shows
   "length trace = length ws + 1 \<and>
    trace ! 0 = x \<and>
    (\<forall>l<length ws.
       trace ! (l + 1) =
         map (Math_tanh M) (matVecMul M (W (ws ! l)) (trace ! l) (Some (b (ws ! l)))) \<and>
       length (trace ! (l + 1)) = length (W (ws ! l)) \<and>
       (\<forall>i<length (W (ws ! l)).
          matVecMul M (W (ws ! l)) (trace ! l) (Some (b (ws ! l))) ! i =
            num_add M (dot M (W (ws ! l) ! i) (trace ! l)) (js_index M (b (ws ! l)) i))) \<and>
    (\<forall>a v. length a \<le> length v \<longrightarrow>
       dot M a v = foldl (\<lambda>s (p, q). num_add M s (num_mul M p q)) (num_of_int M 0) (zip a v)) \<and>
    (\<forall>v i. i < length v \<longrightarrow> js_index M v i = v ! i) \<and>
    (ws \<noteq> [] \<longrightarrow>
       last trace =
         map (Math_tanh M)
           (matVecMul M (W (last ws)) (trace ! (length ws - 1)) (Some (b (last ws))))) \<and>
    (length x = 2 \<longrightarrow>
       (\<exists>generated. weights M [6, 3, 5, 2] x = Inr generated \<and>
          map length (allActivations M generated x) = [2, 6, 3, 5, 2]))"
proof (intro conjI allI impI)
  show "length trace = length ws + 1"
    by (simp add: trace_def allActivations_length)
  show "trace ! 0 = x"
    by (simp add: trace_def allActivations_0)
  show "trace ! (l + 1) =
      map (Math_tanh M) (matVecMul M (W (ws ! l)) (trace ! l) (Some (b (ws ! l))))"
    if "l < length ws" for l
    using that by (simp add: trace_def allActivations_next)
  show "length (trace ! (l + 1)) = length (W (ws ! l))" if "l < length ws" for l
    using that by (simp add: trace_def allActivations_next_length)
  show "matVecMul M (W (ws ! l)) (trace ! l) (Some (b (ws ! l))) ! i =
      num_add M (dot M (W (ws ! l) ! i) (trace ! l)) (js_index M (b (ws ! l)) i)"
    if "i < length (W (ws ! l))" for l i
    using that by (rule matVecMul_nth)
  show "dot M a v = foldl (\<lambda>s (p, q). num_add M s (num_mul M p q)) (num_of_int M 0) (zip a v)"
    if "length a \<le> length v" for a v
    using that by (rule dot_zip)
  show "js_index M v i = v ! i" if "i < length v" for v i
    using that by (simp add: js_index_def)
  show "last trace =
      map (Math_tanh M) (matVecMul M (W (last ws)) (trace ! (length ws - 1)) (Some (b (last ws))))"
    if "ws \<noteq> []"
    using that unfolding trace_def by (rule allActivations_last)
  show "\<exists>generated. weights M [6, 3, 5, 2] x = Inr generated \<and>
      map length (allActivations M generated x) = [2, 6, 3, 5, 2]"
    if "length x = 2"
    using that trace_shape [of "[6, 3, 5, 2]" x M] by (simp add: fullCounts_def)
qed

theorem forward_evaluation_witness:
  "length (allActivations exact_math example_params example_input) = 2 \<and>
   allActivations exact_math example_params example_input ! 0 = example_input \<and>
   allActivations exact_math example_params example_input ! 1 =
     map (Math_tanh exact_math)
       (matVecMul exact_math [[Some 1, Some 2]]
          (allActivations exact_math example_params example_input ! 0) (Some [Some 0])) \<and>
   matVecMul exact_math [[Some 1, Some 2]]
       (allActivations exact_math example_params example_input ! 0) (Some [Some 0]) ! 0 =
     num_add exact_math
       (dot exact_math [Some 1, Some 2] (allActivations exact_math example_params example_input ! 0))
       (js_index exact_math [Some 0] 0) \<and>
   dot exact_math [Some 1, Some 2] example_input =
     foldl (\<lambda>s (p, q). num_add exact_math s (num_mul exact_math p q)) (num_of_int exact_math 0)
       (zip [Some 1, Some 2] example_input) \<and>
   js_index exact_math [Some 0] 0 = Some 0 \<and>
   last (allActivations exact_math example_params example_input) =
     map (Math_tanh exact_math)
       (matVecMul exact_math [[Some 1, Some 2]]
          (allActivations exact_math example_params example_input ! 0) (Some [Some 0])) \<and>
   (\<exists>generated. weights exact_math [6, 3, 5, 2] example_input = Inr generated \<and>
      map length (allActivations exact_math generated example_input) = [2, 6, 3, 5, 2])"
proof -
  note t = forward_evaluation [of exact_math example_params example_input]
  have l: "0 < length example_params"
    by (simp add: example_params_def)
  note tl = t [THEN conjunct2, THEN conjunct2, THEN conjunct1, rule_format, OF l]
  have i: "0 < length (W (example_params ! 0))"
    by (simp add: example_params_def)
  note ti = tl [THEN conjunct2, THEN conjunct2, rule_format, OF i]
  note rest = t [THEN conjunct2, THEN conjunct2, THEN conjunct2]
  have d: "length [Some 1, Some (2::real)] \<le> length example_input"
    by (simp add: example_input_def)
  note td = rest [THEN conjunct1, rule_format, OF d]
  have j: "0 < length [Some (0::real)]"
    by simp
  note tj = rest [THEN conjunct2, THEN conjunct1, rule_format, OF j]
  have n: "example_params \<noteq> []"
    by (simp add: example_params_def)
  note tn = rest [THEN conjunct2, THEN conjunct2, THEN conjunct1, rule_format, OF n]
  have s: "length example_input = 2"
    by (simp add: example_input_def)
  note ts = rest [THEN conjunct2, THEN conjunct2, THEN conjunct2, rule_format, OF s]
  from t tl ti td tj tn ts show ?thesis
    by (simp add: example_params_def)
qed

lemma allActivations_example:
  "allActivations exact_math example_params example_input = [[Some 1, Some 1], [Some (tanh 3)]]"
  by (simp add: allActivations_def allActivations_step_def matVecMul_def dot_def reduce_def
      enumerate_eq_zip js_index_def applyActivation_def tanh_js_def exact_math_def lift2_def
      example_params_def example_input_def)

section \<open>Forward evaluation leaves the input alone\<close>

lemma store_inv_init:
  "store_inv M ws h0 inp 0 (h0 @ [NumArr (nums h0 inp), RefArr [length h0]])"
  by (simp add: store_inv_def refs_def nums_def nth_append)

lemma store_inv_step:
  assumes "store_inv M ws h0 inp n h"
  shows "store_inv M ws h0 inp (Suc n) (allActivations_st_step M ws (Suc (length h0)) h n)"
proof -
  define acts where "acts = Suc (length h0)"
  define rs where "rs = refs h acts"
  define T where "T = foldl (allActivations_step M ws) [nums h0 inp] [0 ..< n]"
  define z where "z = matVecMul M (W (ws ! n)) (T ! n) (Some (b (ws ! n)))"
  define a where "a = applyActivation z (tanh_js M)"
  from assms have len: "length h0 + 2 \<le> length h"
    and frame: "take (length h0) h = h0"
    and first: "hd rs = length h0"
    and valid: "\<forall>r \<in> set rs. length h0 \<le> r \<and> r < length h \<and> r \<noteq> acts"
    and cell: "h ! acts = RefArr rs"
    and tr: "map (nums h) rs = T"
    by (simp_all add: store_inv_def acts_def rs_def T_def)
  have lenT: "length T = n + 1"
    by (simp add: T_def acts_length)
  with tr have lenrs: "length rs = n + 1"
    by (metis length_map)
  then have "nums h (rs ! n) = T ! n"
    using tr by (metis lessI nth_map Suc_eq_plus1)
  then have step: "allActivations_st_step M ws acts h n =
      (h @ [NumArr z, NumArr a])[acts := RefArr (rs @ [length h + 1])]"
    using len
    by (simp add: allActivations_st_step_def matVecMul_st_def applyActivation_st_def alloc_def
        push_def Let_def rs_def z_def a_def nums_def refs_def nth_append acts_def)
  define h' where "h' = (h @ [NumArr z, NumArr a])[acts := RefArr (rs @ [length h + 1])]"
  have actslt: "acts < length h" using len by (simp add: acts_def)
  have refs': "refs h' acts = rs @ [length h + 1]"
    using actslt by (simp add: h'_def refs_def)
  have same: "nums h' r = nums h r" if "r \<in> set rs" for r
    using valid that by (auto simp: h'_def nums_def nth_append)
  have new: "nums h' (length h + 1) = a"
    using actslt by (simp add: h'_def nums_def nth_append)
  have "map (nums h') (rs @ [length h + 1]) = T @ [a]"
    using same new tr by (simp cong: map_cong)
  also have "T @ [a] = foldl (allActivations_step M ws) [nums h0 inp] [0 ..< Suc n]"
    by (simp only: acts_Suc) (simp add: T_def a_def z_def)
  finally have tr': "map (nums h') (refs h' acts) =
      foldl (allActivations_step M ws) [nums h0 inp] [0 ..< Suc n]"
    by (simp add: refs')
  have frame': "take (length h0) h' = h0"
    using frame len by (simp add: h'_def acts_def)
  have rsne: "rs \<noteq> []" using lenrs by auto
  have first': "hd (refs h' acts) = length h0"
    using first rsne by (simp add: refs')
  have valid': "\<forall>r \<in> set (refs h' acts). length h0 \<le> r \<and> r < length h' \<and> r \<noteq> acts"
    unfolding refs' using valid len by (auto simp: h'_def acts_def)
  have cell': "h' ! acts = RefArr (refs h' acts)"
    using actslt by (simp add: refs') (simp add: h'_def)
  have "store_inv M ws h0 inp (Suc n) h'"
    unfolding store_inv_def
    using len frame' first' valid' cell' tr'
    by (simp add: acts_def h'_def)
  then show ?thesis
    using step by (simp add: h'_def acts_def)
qed

lemma store_inv_loop:
  "store_inv M ws h0 inp n
     (foldl (allActivations_st_step M ws (Suc (length h0)))
        (h0 @ [NumArr (nums h0 inp), RefArr [length h0]]) [0 ..< n])"
proof (induction n)
  case 0
  show ?case by (simp add: store_inv_init)
next
  case (Suc n)
  then show ?case by (simp add: store_inv_step)
qed

lemma allActivations_st_eq:
  "allActivations_st M ws inp h0 =
     (Suc (length h0),
      foldl (allActivations_st_step M ws (Suc (length h0)))
        (h0 @ [NumArr (nums h0 inp), RefArr [length h0]]) [0 ..< length ws])"
  by (simp add: allActivations_st_def slice_st_def alloc_def)

text \<open>
  C8. When the evaluation runs on a store in which \<^verbatim>\<open>inputVector\<close> refers to an
  array \<open>xs\<close>, then in the store it leaves, \<^verbatim>\<open>inputVector\<close> still refers to \<open>xs\<close>, as
  every object that existed before is unchanged; element 0 of the trace is another
  object (a reference different from \<^verbatim>\<open>inputVector\<close>) with the contents \<open>xs\<close>; and the
  contents of the trace are those the evaluation on values computes.
\<close>

theorem input_not_mutated:
  fixes M :: "'a jsmath" and h :: "'a store" and ws :: "'a layer_params list" and inputVector :: nat
  defines "res \<equiv> allActivations_st M ws inputVector h"
  assumes inb: "inputVector < length h" and arr: "h ! inputVector = NumArr xs"
  shows "snd res ! inputVector = NumArr xs \<and>
         (\<forall>r<length h. snd res ! r = h ! r) \<and>
         refs (snd res) (fst res) ! 0 \<noteq> inputVector \<and>
         nums (snd res) (refs (snd res) (fst res) ! 0) = xs \<and>
         map (nums (snd res)) (refs (snd res) (fst res)) = allActivations M ws xs"
proof -
  define h' where "h' = snd res"
  have acts: "fst res = Suc (length h)"
    by (simp add: res_def allActivations_st_eq)
  have "store_inv M ws h inputVector (length ws) h'"
    unfolding h'_def res_def allActivations_st_eq snd_conv by (rule store_inv_loop)
  then have frame: "take (length h) h' = h"
    and first: "hd (refs h' (Suc (length h))) = length h"
    and tr: "map (nums h') (refs h' (Suc (length h))) =
       foldl (allActivations_step M ws) [nums h inputVector] [0 ..< length ws]"
    by (simp_all add: store_inv_def)
  have xs: "nums h inputVector = xs"
    using arr by (simp add: nums_def)
  have same: "h' ! r = h ! r" if "r < length h" for r
    using that nth_take [of r "length h" h'] frame by simp
  have "length (map (nums h') (refs h' (Suc (length h)))) = length ws + 1"
    by (simp only: tr acts_length)
  then have ne: "refs h' (Suc (length h)) \<noteq> []"
    by auto
  then have nth0: "refs h' (Suc (length h)) ! 0 = length h"
    using first by (simp add: hd_conv_nth)
  have "map (nums h') (refs h' (Suc (length h))) ! 0 = nums h inputVector"
    by (simp only: tr acts_0)
  then have copy: "nums h' (refs h' (Suc (length h)) ! 0) = xs"
    using ne xs by simp
  have trace: "map (nums h') (refs h' (Suc (length h))) = allActivations M ws xs"
    using tr xs by (simp add: allActivations_def)
  show ?thesis
    using same [OF inb] same inb arr nth0 copy trace
    unfolding h'_def [symmetric] acts by simp
qed

theorem input_not_mutated_witness:
  "snd (allActivations_st exact_math example_params 0 example_store) ! 0 = NumArr example_input \<and>
   snd (allActivations_st exact_math example_params 0 example_store) ! 0 = example_store ! 0 \<and>
   refs (snd (allActivations_st exact_math example_params 0 example_store))
      (fst (allActivations_st exact_math example_params 0 example_store)) ! 0 \<noteq> 0 \<and>
   nums (snd (allActivations_st exact_math example_params 0 example_store))
      (refs (snd (allActivations_st exact_math example_params 0 example_store))
         (fst (allActivations_st exact_math example_params 0 example_store)) ! 0) = example_input \<and>
   map (nums (snd (allActivations_st exact_math example_params 0 example_store)))
      (refs (snd (allActivations_st exact_math example_params 0 example_store))
         (fst (allActivations_st exact_math example_params 0 example_store))) =
     allActivations exact_math example_params example_input"
proof -
  have a: "0 < length example_store"
    by (simp add: example_store_def)
  have c: "example_store ! 0 = NumArr example_input"
    by (simp add: example_store_def)
  note t = input_not_mutated [OF a c, of exact_math example_params]
  note r = t [THEN conjunct2, THEN conjunct1, rule_format, OF a]
  from t r show ?thesis by simp
qed

lemma allActivations_st_example:
  "allActivations_st exact_math example_params 0 example_store =
     (2, [NumArr [Some 1, Some 1], NumArr [Some 1, Some 1], RefArr [1, 4],
          NumArr [Some 3], NumArr [Some (tanh 3)]])"
  by (simp add: allActivations_st_def allActivations_st_step_def slice_st_def alloc_def push_def
      matVecMul_st_def applyActivation_st_def nums_def refs_def
      matVecMul_def dot_def reduce_def enumerate_eq_zip js_index_def applyActivation_def
      tanh_js_def exact_math_def lift2_def example_params_def example_input_def example_store_def)

section \<open>The decision\<close>

lemma fp_gt_irrefl: "\<not> fp_gt v v"
  by (cases v) simp_all

lemma fp_gt_NaN_right: "\<not> fp_gt v NaN"
  by (cases v) simp_all

lemma onResult_pair:
  "onResult M A B [u, v] = (if num_gt M (sigmoid M u) (sigmoid M v) then A else B)"
  by (simp add: onResult_def js_index_def)

lemma approxD: "approx M x r \<Longrightarrow> \<exists>v. num_val M x = Finite v \<and> \<bar>v - r\<bar> \<le> 1 / 100"
  by (cases "num_val M x") (simp_all add: approx_def)

lemma exp_bounds:
  assumes "\<bar>a\<bar> \<le> (1::real)"
  shows "1 / 3 \<le> exp a" and "exp a \<le> 3"
proof -
  have e1: "exp (1::real) \<le> 3" by (rule exp_le)
  have "exp a \<le> exp 1" using assms by simp
  then show "exp a \<le> 3" using e1 by (rule order_trans)
  have "exp (- a) \<le> exp 1" using assms by simp
  then have "exp (- a) \<le> 3" using e1 by (rule order_trans)
  then have "inverse 3 \<le> inverse (exp (- a))"
    by (intro le_imp_inverse_le) simp_all
  then show "1 / 3 \<le> exp a"
    by (simp add: exp_minus)
qed

lemma inverse_close:
  assumes "1 \<le> t" "1 \<le> u"
  shows "\<bar>1 / u - 1 / t\<bar> \<le> \<bar>t - (u::real)\<bar>"
proof -
  have pos: "0 < u * t" using assms by simp
  have one: "1 \<le> u * t" using assms
    by (metis mult_mono' zero_le_one mult_1)
  have "1 / u - 1 / t = (t - u) / (u * t)"
    using assms by (simp add: field_simps)
  then have "\<bar>1 / u - 1 / t\<bar> = \<bar>t - u\<bar> / (u * t)"
    using pos by (simp add: abs_divide)
  also have "\<dots> \<le> \<bar>t - u\<bar> / 1"
    using one by (intro divide_left_mono) simp_all
  finally show ?thesis by simp
qed

lemma sigmoid_accurate:
  assumes acc: "accurate_arith M" and x: "num_val M x = Finite a" and a: "\<bar>a\<bar> \<le> 1"
  shows "\<exists>w. num_val M (sigmoid M x) = Finite w \<and> \<bar>w - 1 / (1 + exp (- a))\<bar> \<le> 3 / 100"
proof -
  from acc have one: "num_val M (num_of_int M 1) = Finite 1"
    and neg: "\<And>x a. num_val M x = Finite a \<Longrightarrow> num_val M (num_neg M x) = Finite (- a)"
    and ex: "\<And>x a. num_val M x = Finite a \<Longrightarrow> \<bar>a\<bar> \<le> 1 \<Longrightarrow> approx M (Math_exp M x) (exp a)"
    and add: "\<And>x y a c. num_val M x = Finite a \<Longrightarrow> num_val M y = Finite c \<Longrightarrow> \<bar>a\<bar> \<le> 4 \<Longrightarrow> \<bar>c\<bar> \<le> 4 \<Longrightarrow>
        approx M (num_add M x y) (a + c)"
    and dv: "\<And>x y a c. num_val M x = Finite a \<Longrightarrow> num_val M y = Finite c \<Longrightarrow> \<bar>a\<bar> \<le> 4 \<Longrightarrow> 1 \<le> c \<Longrightarrow> c \<le> 8 \<Longrightarrow>
        approx M (num_div M x y) (a / c)"
    by (simp_all add: accurate_arith_def)
  from a have a': "\<bar>- a\<bar> \<le> 1" by simp
  note eb = exp_bounds [OF a']
  from ex [OF neg [OF x] a'] obtain v
    where v: "num_val M (Math_exp M (num_neg M x)) = Finite v" and dv1: "\<bar>v - exp (- a)\<bar> \<le> 1 / 100"
    by (blast dest: approxD)
  from eb dv1 have vb: "\<bar>v\<bar> \<le> 4" by linarith
  from add [OF one v _ vb] obtain u
    where u: "num_val M (num_add M (num_of_int M 1) (Math_exp M (num_neg M x))) = Finite u"
      and du: "\<bar>u - (1 + v)\<bar> \<le> 1 / 100"
    by (auto dest: approxD)
  from eb dv1 du have ub: "1 \<le> u" "u \<le> 8" by linarith+
  from dv [OF one u _ ub] obtain w
    where w: "num_val M (sigmoid M x) = Finite w" and dw: "\<bar>w - 1 / u\<bar> \<le> 1 / 100"
    by (auto dest: approxD simp: sigmoid_def)
  have t: "1 \<le> 1 + exp (- a)" by simp
  from inverse_close [OF t ub(1)] have "\<bar>1 / u - 1 / (1 + exp (- a))\<bar> \<le> \<bar>1 + exp (- a) - u\<bar>" .
  with dv1 du dw have "\<bar>w - 1 / (1 + exp (- a))\<bar> \<le> 3 / 100" by linarith
  with w show ?thesis by blast
qed

lemma sigmoid_one:
  assumes "accurate_arith M" "num_val M p = Finite 1"
  shows "\<exists>w. num_val M (sigmoid M p) = Finite w \<and> 6 / 10 \<le> w"
proof -
  from sigmoid_accurate [OF assms] obtain w
    where w: "num_val M (sigmoid M p) = Finite w" and d: "\<bar>w - 1 / (1 + exp (- 1))\<bar> \<le> 3 / 100"
    by auto
  have "exp (- 1 :: real) \<le> 1 / 2"
  proof -
    have "(2::real) \<le> exp 1" using exp_ge_add_one_self [of "1::real"] by simp
    then have "inverse (exp (1::real)) \<le> inverse 2"
      by (intro le_imp_inverse_le) simp_all
    then show ?thesis by (simp add: exp_minus)
  qed
  then have "1 + exp (- 1 :: real) \<le> 3 / 2" by simp
  then have "inverse (3 / 2) \<le> inverse (1 + exp (- 1 :: real))"
    by (intro le_imp_inverse_le) (simp_all add: add_pos_pos)
  then have "2 / 3 \<le> 1 / (1 + exp (- 1 :: real))"
    by (simp add: inverse_eq_divide)
  with d have "6 / 10 \<le> w" by linarith
  with w show ?thesis by blast
qed

lemma sigmoid_minus_one:
  assumes "accurate_arith M" "num_val M m = Finite (- 1)"
  shows "\<exists>w. num_val M (sigmoid M m) = Finite w \<and> w \<le> 4 / 10"
proof -
  from sigmoid_accurate [OF assms] obtain w
    where w: "num_val M (sigmoid M m) = Finite w" and d: "\<bar>w - 1 / (1 + exp (- (- 1)))\<bar> \<le> 3 / 100"
    by auto
  have "(2::real) \<le> exp 1" using exp_ge_add_one_self [of "1::real"] by simp
  then have "3 \<le> 1 + exp (1::real)" by simp
  then have "inverse (1 + exp (1::real)) \<le> inverse 3"
    by (intro le_imp_inverse_le) simp_all
  then have "1 / (1 + exp (1::real)) \<le> 1 / 3"
    by (simp add: inverse_eq_divide)
  moreover have "\<bar>w - 1 / (1 + exp 1)\<bar> \<le> 3 / 100" using d by simp
  ultimately have "w \<le> 4 / 10" by linarith
  with w show ?thesis by blast
qed

lemma decide_examples:
  assumes "accurate_arith M" "num_val M p = Finite 1" "num_val M m = Finite (- 1)"
  shows "onResult M A B [p, m] = A" and "onResult M A B [m, p] = B"
proof -
  from sigmoid_one [OF assms(1,2)] obtain w where w: "num_val M (sigmoid M p) = Finite w" "6 / 10 \<le> w"
    by auto
  from sigmoid_minus_one [OF assms(1,3)] obtain w' where w': "num_val M (sigmoid M m) = Finite w'" "w' \<le> 4 / 10"
    by auto
  from w w' show "onResult M A B [p, m] = A"
    by (simp add: onResult_pair num_gt_def)
  from w w' show "onResult M A B [m, p] = B"
    by (simp add: onResult_pair num_gt_def)
qed

lemma accurate_exact_math: "accurate_arith exact_math"
  by (auto simp: accurate_arith_def exact_math_def approx_def exact_val_def lift2_def exact_div_def
      split: option.splits)

text \<open>
  C4. On a two-element vector the decision computes \<open>sigmoid\<close> of each element, with
  \<open>sigmoid(x) = 1 / (1 + exp(-x))\<close>, and returns the first candidate if the first
  score is greater than the second, the second candidate otherwise; scores of
  equal value give the second candidate, as a vector of two equal elements does
  (\<open>[0.0, 0.0]\<close>). In every arithmetic that is accurate in the sense of
  \<open>accurate_arith\<close>, the vector \<open>[1.0, -1.0]\<close> gives the first candidate and
  \<open>[-1.0, 1.0]\<close> the second.
\<close>

theorem decision_rule:
  "sigmoid M x =
     num_div M (num_of_int M 1) (num_add M (num_of_int M 1) (Math_exp M (num_neg M x))) \<and>
   onResult M A B [u, v] = (if num_gt M (sigmoid M u) (sigmoid M v) then A else B) \<and>
   (num_val M (sigmoid M u) = num_val M (sigmoid M v) \<longrightarrow> onResult M A B [u, v] = B) \<and>
   onResult M A B [z, z] = B \<and>
   (accurate_arith M \<longrightarrow> num_val M p = Finite 1 \<longrightarrow> num_val M m = Finite (- 1) \<longrightarrow>
      onResult M A B [p, m] = A \<and> onResult M A B [m, p] = B)"
proof (intro conjI impI)
  show "sigmoid M x =
      num_div M (num_of_int M 1) (num_add M (num_of_int M 1) (Math_exp M (num_neg M x)))"
    by (simp add: sigmoid_def)
  show "onResult M A B [u, v] = (if num_gt M (sigmoid M u) (sigmoid M v) then A else B)"
    by (rule onResult_pair)
  show "onResult M A B [u, v] = B" if "num_val M (sigmoid M u) = num_val M (sigmoid M v)"
    using that by (simp add: onResult_pair num_gt_def fp_gt_irrefl)
  show "onResult M A B [z, z] = B"
    by (simp add: onResult_pair num_gt_def fp_gt_irrefl)
  show "onResult M A B [p, m] = A"
    if "accurate_arith M" "num_val M p = Finite 1" "num_val M m = Finite (- 1)"
    using that by (rule decide_examples)
  show "onResult M A B [m, p] = B"
    if "accurate_arith M" "num_val M p = Finite 1" "num_val M m = Finite (- 1)"
    using that by (rule decide_examples)
qed

theorem decision_rule_witness:
  "accurate_arith exact_math \<and>
   num_val exact_math (Some 1) = Finite 1 \<and>
   num_val exact_math (Some (- 1)) = Finite (- 1) \<and>
   onResult exact_math ''A'' ''B'' [Some 1, Some (- 1)] = ''A'' \<and>
   onResult exact_math ''A'' ''B'' [Some (- 1), Some 1] = ''B'' \<and>
   num_val exact_math (sigmoid exact_math (Some 0)) = num_val exact_math (sigmoid exact_math (Some 0)) \<and>
   onResult exact_math ''A'' ''B'' [Some 0, Some 0] = ''B''"
proof -
  have p: "num_val exact_math (Some 1) = Finite 1"
    by (simp add: exact_math_def exact_val_def)
  have m: "num_val exact_math (Some (- 1)) = Finite (- 1)"
    by (simp add: exact_math_def exact_val_def)
  note t = decision_rule [where M = exact_math and u = "Some 0" and v = "Some 0" and z = "Some 0"
      and A = "''A''" and B = "''B''" and p = "Some 1" and m = "Some (- 1)"]
  note tie = t [THEN conjunct2, THEN conjunct2, THEN conjunct1, rule_format, OF refl]
  note ex = t [THEN conjunct2, THEN conjunct2, THEN conjunct2, THEN conjunct2, rule_format,
      OF accurate_exact_math p m]
  from tie ex p m accurate_exact_math show ?thesis
    by simp
qed

text \<open>
  C10. The decision returns one of the two identifiers on every vector, whatever its
  elements; on a two-element vector it returns the second identifier whenever
  \<open>sigmoid(vec[0]) > sigmoid(vec[1])\<close> does not hold, which is the case as soon as one
  of the two scores is NaN.
\<close>

theorem winner_total:
  "(onResult M id1 id2 vec = id1 \<or> onResult M id1 id2 vec = id2) \<and>
   (\<not> num_gt M (sigmoid M x) (sigmoid M y) \<longrightarrow> onResult M id1 id2 [x, y] = id2) \<and>
   (num_val M (sigmoid M x) = NaN \<or> num_val M (sigmoid M y) = NaN \<longrightarrow>
      onResult M id1 id2 [x, y] = id2)"
proof (intro conjI impI)
  show "onResult M id1 id2 vec = id1 \<or> onResult M id1 id2 vec = id2"
    by (simp add: onResult_def)
  show "onResult M id1 id2 [x, y] = id2" if "\<not> num_gt M (sigmoid M x) (sigmoid M y)"
    using that by (simp add: onResult_pair)
  show "onResult M id1 id2 [x, y] = id2"
    if "num_val M (sigmoid M x) = NaN \<or> num_val M (sigmoid M y) = NaN"
    using that by (auto simp: onResult_pair num_gt_def fp_gt_NaN_right)
qed

theorem winner_total_witness:
  "num_val exact_math (sigmoid exact_math None) = NaN \<and>
   \<not> num_gt exact_math (sigmoid exact_math None) (sigmoid exact_math (Some 0)) \<and>
   onResult exact_math (4::nat) 9 [None, Some 0] = 9"
proof -
  have n: "num_val exact_math (sigmoid exact_math None) = NaN"
    by (simp add: sigmoid_def exact_math_def exact_div_def lift2_def exact_val_def)
  then have g: "\<not> num_gt exact_math (sigmoid exact_math None) (sigmoid exact_math (Some 0))"
    by (simp add: num_gt_def)
  note t = winner_total [where M = exact_math and ?id1.0 = "4::nat" and ?id2.0 = 9 and x = None and y = "Some 0"]
  note a = t [THEN conjunct2, THEN conjunct1, rule_format, OF g]
  note c = t [THEN conjunct2, THEN conjunct2, rule_format, OF disjI1, OF n]
  from n g a c show ?thesis by blast
qed

section \<open>Weight generation on a store\<close>

lemma sim_array_from_loop:
  assumes "\<And>s. g' (emb s) = map_sum id (map_prod id emb) (g s)"
  shows "array_from_loop n g' (emb s) = map_sum id (map_prod id emb) (array_from_loop n g s)"
proof (induction n arbitrary: s)
  case 0
  show ?case by simp
next
  case (Suc n)
  show ?case
  proof (cases "g s")
    case (Inl e)
    then show ?thesis by (simp add: assms)
  next
    case (Inr p)
    obtain x s1 where p: "p = (x, s1)" by (cases p)
    show ?thesis
      by (cases "array_from_loop n g s1") (auto simp: assms Inr p Suc.IH)
  qed
qed

lemma sim_array_from:
  assumes "\<And>s. g' (emb s) = map_sum id (map_prod id emb) (g s)"
  shows "array_from n g' (emb s) = map_sum id (map_prod id emb) (array_from n g s)"
  by (simp add: array_from_def Let_def sim_array_from_loop [of g' emb g, OF assms])

lemma sim_weight_entry:
  assumes "\<And>s. rng' (emb s) = map_prod id emb (rng s)"
  shows "weight_entry M rng' scale (emb s) =
     map_sum id (map_prod id emb) (weight_entry M rng scale s)"
  by (simp add: weight_entry_def assms split_beta)

lemma sim_bias_entry:
  assumes "\<And>s. rng' (emb s) = map_prod id emb (rng s)"
  shows "bias_entry M rng' (emb s) = map_sum id (map_prod id emb) (bias_entry M rng s)"
  by (simp add: bias_entry_def assms split_beta)

lemma sim_weights_step:
  assumes "\<And>s. rng' (emb s) = map_prod id emb (rng s)"
  shows "weights_step M rng' fc (map_sum id (map_prod id emb) acc) l =
     map_sum id (map_prod id emb) (weights_step M rng fc acc l)"
proof (cases acc)
  case (Inl e)
  then show ?thesis by (simp add: weights_step_def)
next
  case (Inr p)
  obtain arr st where p: "p = (arr, st)" by (cases p)
  define scale where "scale = Math_sqrt M (num_div M (num_of_int M 1) (num_of_int M (fc ! l)))"
  have row: "array_from n (weight_entry M rng' scale) (emb s) =
      map_sum id (map_prod id emb) (array_from n (weight_entry M rng scale) s)" for n s
    by (rule sim_array_from) (rule sim_weight_entry, rule assms)
  have mat: "array_from m (array_from n (weight_entry M rng' scale)) (emb s) =
      map_sum id (map_prod id emb) (array_from m (array_from n (weight_entry M rng scale)) s)"
    for m n s
    by (rule sim_array_from) (rule row)
  have bia: "array_from m (bias_entry M rng') (emb s) =
      map_sum id (map_prod id emb) (array_from m (bias_entry M rng) s)" for m s
    by (rule sim_array_from) (rule sim_bias_entry, rule assms)
  show ?thesis
  proof (cases "array_from (fc ! (l + 1)) (array_from (fc ! l) (weight_entry M rng scale)) st")
    case (Inl e)
    then show ?thesis
      using mat [of "fc ! (l + 1)" "fc ! l" st]
      by (simp add: weights_step_def Let_def Inr p scale_def)
  next
    case m: (Inr q)
    obtain Wm st1 where q: "q = (Wm, st1)" by (cases q)
    show ?thesis
      using mat [of "fc ! (l + 1)" "fc ! l" st] bia [of "fc ! (l + 1)" st1] m
      by (cases "array_from (fc ! (l + 1)) (bias_entry M rng) st1")
         (auto simp: weights_step_def Let_def Inr p q scale_def)
  qed
qed

lemma sim_foldl:
  assumes "\<And>s. rng' (emb s) = map_prod id emb (rng s)"
  shows "foldl (weights_step M rng' fc) (map_sum id (map_prod id emb) acc) ls =
     map_sum id (map_prod id emb) (foldl (weights_step M rng fc) acc ls)"
  by (induction ls arbitrary: acc) (simp_all add: sim_weights_step [of rng' emb rng, OF assms])

lemma sim_weights_loop:
  assumes "\<And>s. rng' (emb s) = map_prod id emb (rng s)"
  shows "weights_loop M rng' fc (emb st) = map_sum id (map_prod id emb) (weights_loop M rng fc st)"
  using sim_foldl [of rng' emb rng M fc "Inr ([], st)", OF assms]
  by (simp add: weights_loop_def)

lemma rng_st_append:
  "rng_st M (length h) (h @ [s]) = map_prod id (\<lambda>s. h @ [s]) (mulberry32 M s)"
  by (cases "mulberry32 M s") (simp add: rng_st_def)

lemma generate_st_eq:
  "generate_st M fc seed h = map_sum id (map_prod id (\<lambda>s. h @ [s])) (generate M fc seed)"
  using sim_weights_loop [of "rng_st M (length h)" "\<lambda>s. h @ [s]" "mulberry32 M" M fc seed,
      OF rng_st_append]
  by (simp add: generate_st_def generate_def mulberry32_st_def)

lemma generate_st_value:
  "map_sum id fst (generate_st M fc seed h) = map_sum id fst (generate M fc seed)"
  by (cases "generate M fc seed") (auto simp: generate_st_eq)

lemma generate_st_frame:
  assumes "generate_st M fc seed h = Inr (ps, h')"
  shows "take (length h) h' = h" and "length h' = length h + 1"
  using assms by (cases "generate M fc seed"; auto simp: generate_st_eq)+

section \<open>Determinism and what the parameters depend on\<close>

lemma store_inv_final:
  "store_inv M ws h inp (length ws) (snd (allActivations_st M ws inp h))"
  unfolding allActivations_st_eq snd_conv by (rule store_inv_loop)

lemma allActivations_st_frame:
  assumes "r < length h"
  shows "snd (allActivations_st M ws inp h) ! r = h ! r"
proof -
  have "take (length h) (snd (allActivations_st M ws inp h)) = h"
    using store_inv_final [of M ws h inp] by (simp add: store_inv_def)
  then show ?thesis
    using assms nth_take [of r "length h" "snd (allActivations_st M ws inp h)"] by simp
qed

lemma allActivations_st_trace:
  "trace_of (allActivations_st M ws inp h) = allActivations M ws (nums h inp)"
proof -
  have "fst (allActivations_st M ws inp h) = Suc (length h)"
    by (simp add: allActivations_st_eq)
  then show ?thesis
    using store_inv_final [of M ws h inp]
    by (simp add: store_inv_def trace_of_def allActivations_def)
qed

text \<open>
  C5. With the same topology and seed, weight generation returns the same result,
  every weight and every bias (or the same exception), in whatever store it runs,
  the store a first run has left included; a run leaves the variables of the
  closures that existed before it as they were. Forward evaluation returns the
  same trace for inputs of equal contents in whatever store it runs, the store a
  first evaluation has left included. Nothing is carried from one call to the next.
\<close>

theorem generation_and_evaluation_deterministic:
  "map_sum id fst (generate_st M T s h) = map_sum id fst (generate_st M T s h2) \<and>
   (generate_st M T s h = Inr (params, h') \<longrightarrow>
      take (length h) h' = h \<and> map_sum id fst (generate_st M T s h') = Inr params) \<and>
   (nums hs inputVector = nums hs2 inputVector2 \<longrightarrow>
      trace_of (allActivations_st M ws inputVector hs) =
      trace_of (allActivations_st M ws inputVector2 hs2)) \<and>
   (inputVector < length hs \<longrightarrow>
      trace_of (allActivations_st M ws inputVector (snd (allActivations_st M ws inputVector hs))) =
      trace_of (allActivations_st M ws inputVector hs))"
proof (intro conjI impI)
  show "map_sum id fst (generate_st M T s h) = map_sum id fst (generate_st M T s h2)"
    by (simp only: generate_st_value)
  show "take (length h) h' = h" if "generate_st M T s h = Inr (params, h')"
    using that by (rule generate_st_frame)
  show "map_sum id fst (generate_st M T s h') = Inr params"
    if "generate_st M T s h = Inr (params, h')"
  proof -
    have "map_sum id fst (generate_st M T s h') = map_sum id fst (generate_st M T s h)"
      by (simp only: generate_st_value)
    with that show ?thesis by simp
  qed
  show "trace_of (allActivations_st M ws inputVector hs) =
      trace_of (allActivations_st M ws inputVector2 hs2)"
    if "nums hs inputVector = nums hs2 inputVector2"
    using that by (simp add: allActivations_st_trace)
  show "trace_of (allActivations_st M ws inputVector (snd (allActivations_st M ws inputVector hs))) =
      trace_of (allActivations_st M ws inputVector hs)"
    if "inputVector < length hs"
    using that by (simp add: allActivations_st_trace nums_def allActivations_st_frame)
qed

theorem generation_and_evaluation_deterministic_witness:
  "(\<exists>params h'.
      generate_st exact_math [2, 3] (Whole 297) [] = Inr (params, h') \<and>
      take (length ([] :: cells)) h' = [] \<and>
      map_sum id fst (generate_st exact_math [2, 3] (Whole 297) h') = Inr params) \<and>
   nums example_store 0 = nums (example_store @ example_store) 1 \<and>
   trace_of (allActivations_st exact_math example_params 0 example_store) =
     trace_of (allActivations_st exact_math example_params 1 (example_store @ example_store)) \<and>
   0 < length example_store \<and>
   trace_of (allActivations_st exact_math example_params 0
       (snd (allActivations_st exact_math example_params 0 example_store))) =
   trace_of (allActivations_st exact_math example_params 0 example_store)"
proof -
  have small: "\<forall>v \<in> set [2, 3 :: int]. v < 2 ^ 32" by simp
  from generate_eq [OF small, of exact_math "Whole 297"]
  obtain params st where "generate exact_math [2, 3] (Whole 297) = Inr (params, st)"
    by blast
  then have run: "generate_st exact_math [2, 3] (Whole 297) [] = Inr (params, [st])"
    by (simp add: generate_st_eq)
  have n: "nums example_store 0 = nums (example_store @ example_store) 1"
    by (simp add: nums_def example_store_def)
  have a: "0 < length example_store"
    by (simp add: example_store_def)
  note t = generation_and_evaluation_deterministic
    [where M = exact_math and T = "[2, 3]" and s = "Whole 297" and h = "[]" and params = params
       and h' = "[st]" and ws = example_params and inputVector = 0 and hs = example_store
       and ?inputVector2.0 = 1 and ?hs2.0 = "example_store @ example_store"]
  note g = t [THEN conjunct2, THEN conjunct1, rule_format, OF run]
  note e = t [THEN conjunct2, THEN conjunct2, THEN conjunct1, rule_format, OF n]
  note r = t [THEN conjunct2, THEN conjunct2, THEN conjunct2, rule_format, OF a]
  from run g have "\<exists>params h'.
      generate_st exact_math [2, 3] (Whole 297) [] = Inr (params, h') \<and>
      take (length ([] :: cells)) h' = [] \<and>
      map_sum id fst (generate_st exact_math [2, 3] (Whole 297) h') = Inr params"
    by blast
  with n e a r show ?thesis by blast
qed

text \<open>
  C9. The seed, the full list of layer sizes and the generated parameters depend on
  the input vector through its length only: two input vectors of equal length give
  the same parameters for the same layers.
\<close>

theorem weights_ignore_input_values:
  "length x = length y \<Longrightarrow>
     seed_of layers x = seed_of layers y \<and>
     fullCounts layers x = fullCounts layers y \<and>
     weights M layers x = weights M layers y"
  by (simp add: weights_def seed_of_def fullCounts_def)

theorem weights_ignore_input_values_witness:
  "length [Some 0, Some (1::real)] = length [Some 0, Some (2::real)] \<and>
   seed_of [1, 6, 3, 5, 2] [Some 0, Some (1::real)] = seed_of [1, 6, 3, 5, 2] [Some 0, Some (2::real)] \<and>
   weights exact_math [1, 6, 3, 5, 2] [Some 0, Some 1] =
     weights exact_math [1, 6, 3, 5, 2] [Some 0, Some 2]"
proof -
  have l: "length [Some 0, Some (1::real)] = length [Some 0, Some (2::real)]"
    by simp
  from l weights_ignore_input_values [OF l, of "[1, 6, 3, 5, 2]" exact_math]
  show ?thesis by simp
qed





lemma seed_same_for_both_pairs:
  "seed_of [6, 3, 5, 2] [0, 1 :: int] = Whole 297 \<and> seed_of [6, 3, 5, 2] [0, 2 :: int] = Whole 297 \<and>
   seed_of [1, 6, 3, 5, 2] [0, 1 :: int] = Whole 314 \<and> seed_of [1, 6, 3, 5, 2] [0, 2 :: int] = Whole 314"
  by code_simp

section \<open>Errors\<close>








end
